theory Spec2Isabelle
  imports Main "HOL-Library.Word"
begin

section \<open>Outcomes of Go code\<close>

text \<open>
  A Go call either returns or panics. A panic is not an \<^verbatim>\<open>error\<close> value: it unwinds
  the goroutine and, unrecovered, ends the process. No function of \<^verbatim>\<open>delay.go\<close>
  recovers, so a panic is kept apart from the returned errors.
\<close>

datatype 'a exec = Panics string | Returns 'a

fun exec_bind :: "'a exec \<Rightarrow> ('a \<Rightarrow> 'b exec) \<Rightarrow> 'b exec" where
  "exec_bind (Panics m) k = Panics m"
| "exec_bind (Returns x) k = k x"

section \<open>The part of package reflect that delay.go uses\<close>

text \<open>\<^verbatim>\<open>reflect.Kind\<close>, all of its values.\<close>

datatype kind =
    Invalid | Bool | Int_kind | Int8 | Int16 | Int32 | Int64
  | Uint | Uint8 | Uint16 | Uint32 | Uint64 | Uintptr
  | Float32 | Float64 | Complex64 | Complex128
  | Array | Chan | Func_kind | Interface | Map_kind | Ptr | Slice | String_kind | Struct
  | UnsafePointer

text \<open>
  The kinds whose types have no component that \<^verbatim>\<open>delay.go\<close> looks at. A struct's
  fields and an interface's methods are not inspected by the package, so such a type is
  its name and its kind.
\<close>

datatype plain =
    PBool | PInt | PInt8 | PInt16 | PInt32 | PInt64
  | PUint | PUint8 | PUint16 | PUint32 | PUint64 | PUintptr
  | PFloat32 | PFloat64 | PComplex64 | PComplex128
  | PString | PStruct | PInterface | PUnsafePointer

fun plain_kind :: "plain \<Rightarrow> kind" where
  "plain_kind PBool = Bool"
| "plain_kind PInt = Int_kind"
| "plain_kind PInt8 = Int8"
| "plain_kind PInt16 = Int16"
| "plain_kind PInt32 = Int32"
| "plain_kind PInt64 = Int64"
| "plain_kind PUint = Uint"
| "plain_kind PUint8 = Uint8"
| "plain_kind PUint16 = Uint16"
| "plain_kind PUint32 = Uint32"
| "plain_kind PUint64 = Uint64"
| "plain_kind PUintptr = Uintptr"
| "plain_kind PFloat32 = Float32"
| "plain_kind PFloat64 = Float64"
| "plain_kind PComplex64 = Complex64"
| "plain_kind PComplex128 = Complex128"
| "plain_kind PString = String_kind"
| "plain_kind PStruct = Struct"
| "plain_kind PInterface = Interface"
| "plain_kind PUnsafePointer = UnsafePointer"

text \<open>
  \<^verbatim>\<open>reflect.Type\<close>. The string is the type's qualified name (empty for an unnamed
  type). A function type lists its fixed parameters, the element type of its final
  \<^verbatim>\<open>...T\<close> parameter when it is variadic, and its results; so the final parameter
  of a variadic function is a slice by construction, as the Go type system has it.
  Two \<^verbatim>\<open>reflect.Type\<close> values are equal exactly when they are the same type, which
  is equality of these descriptors.
\<close>

datatype rtype =
    Plain string plain
  | ArrayOf string nat rtype
  | ChanOf string rtype
  | MapOf string rtype rtype
  | PtrTo string rtype
  | SliceOf string rtype
  | FuncOf string "rtype list" "rtype option" "rtype list"

fun Kind :: "rtype \<Rightarrow> kind" where
  "Kind (Plain n p) = plain_kind p"
| "Kind (ArrayOf n l e) = Array"
| "Kind (ChanOf n e) = Chan"
| "Kind (MapOf n k e) = Map_kind"
| "Kind (PtrTo n e) = Ptr"
| "Kind (SliceOf n e) = Slice"
| "Kind (FuncOf n ps v rs) = Func_kind"

text \<open>The parameter list \<^verbatim>\<open>In(0), ..., In(NumIn()-1)\<close> of a function type.\<close>

fun params :: "rtype \<Rightarrow> rtype list" where
  "params (FuncOf n ps None rs) = ps"
| "params (FuncOf n ps (Some e) rs) = ps @ [SliceOf [] e]"
| "params t = []"

fun results :: "rtype \<Rightarrow> rtype list" where
  "results (FuncOf n ps v rs) = rs"
| "results t = []"

text \<open>
  The accessors panic where package reflect does: on a type that is not of function kind,
  on an index out of range, on \<^verbatim>\<open>Elem\<close> of a type without elements.
\<close>

definition NumIn :: "rtype \<Rightarrow> nat exec" where
  "NumIn t = (if Kind t = Func_kind then Returns (length (params t))
              else Panics ''reflect: NumIn of non-func type'')"

definition In :: "rtype \<Rightarrow> nat \<Rightarrow> rtype exec" where
  "In t i = (if Kind t \<noteq> Func_kind then Panics ''reflect: In of non-func type''
             else if i < length (params t) then Returns (params t ! i)
             else Panics ''runtime error: index out of range'')"

fun IsVariadic :: "rtype \<Rightarrow> bool exec" where
  "IsVariadic (FuncOf n ps v rs) = Returns (v \<noteq> None)"
| "IsVariadic t = Panics ''reflect: IsVariadic of non-func type''"

definition NumOut :: "rtype \<Rightarrow> nat exec" where
  "NumOut t = (if Kind t = Func_kind then Returns (length (results t))
               else Panics ''reflect: NumOut of non-func type'')"

definition Out :: "rtype \<Rightarrow> nat \<Rightarrow> rtype exec" where
  "Out t i = (if Kind t \<noteq> Func_kind then Panics ''reflect: Out of non-func type''
              else if i < length (results t) then Returns (results t ! i)
              else Panics ''runtime error: index out of range'')"

fun Elem :: "rtype \<Rightarrow> rtype exec" where
  "Elem (ArrayOf n l e) = Returns e"
| "Elem (ChanOf n e) = Returns e"
| "Elem (MapOf n k e) = Returns e"
| "Elem (PtrTo n e) = Returns e"
| "Elem (SliceOf n e) = Returns e"
| "Elem t = Panics ''reflect: Elem of invalid type''"

text \<open>
  An \<^verbatim>\<open>interface{}\<close> value: the nil interface, or a dynamic type with its content.
  The content \<open>None\<close> is the zero value of the type, which for a chan, func, map,
  pointer or slice type is nil; \<open>Some d\<close> is any other value, with \<open>'d\<close> the data.
\<close>

datatype 'd any = NilInterface | Iface rtype "'d option"

text \<open>
  \<^verbatim>\<open>reflect.Value\<close>: the zero Value (of kind Invalid), or a typed value. Unlike the
  dynamic type of an interface value, the type of a Value may be an interface type
  (\<^verbatim>\<open>reflect.Zero\<close> of an interface type is the nil value of that type).
\<close>

datatype 'd Value = ZeroValue | Value rtype "'d option"

fun ValueOf :: "'d any \<Rightarrow> 'd Value" where
  "ValueOf NilInterface = ZeroValue"
| "ValueOf (Iface t c) = Value t c"

text \<open>\<^verbatim>\<open>reflect.TypeOf\<close>; \<open>None\<close> is the nil Type it returns for a nil interface.\<close>

fun TypeOf :: "'d any \<Rightarrow> rtype option" where
  "TypeOf NilInterface = None"
| "TypeOf (Iface t c) = Some t"

fun Type :: "'d Value \<Rightarrow> rtype exec" where
  "Type ZeroValue = Panics ''reflect: call of reflect.Value.Type on zero Value''"
| "Type (Value t c) = Returns t"

definition Zero :: "rtype \<Rightarrow> 'd Value" where
  "Zero t = Value t None"

text \<open>
  The kinds listed by both switch statements of \<^verbatim>\<open>Function.Task\<close>
  (\<^verbatim>\<open>reflect.Chan, reflect.Func, reflect.Interface, reflect.Map, reflect.Ptr,
  reflect.Slice\<close>).
\<close>

fun may_be_nil :: "kind \<Rightarrow> bool" where
  "may_be_nil Chan = True"
| "may_be_nil Func_kind = True"
| "may_be_nil Interface = True"
| "may_be_nil Map_kind = True"
| "may_be_nil Ptr = True"
| "may_be_nil Slice = True"
| "may_be_nil k = False"

text \<open>
  \<^verbatim>\<open>Value.IsNil\<close>, which panics on a value whose kind cannot be nil.
\<close>

fun IsNil :: "'d Value \<Rightarrow> bool exec" where
  "IsNil ZeroValue = Panics ''reflect: call of reflect.Value.IsNil on zero Value''"
| "IsNil (Value t c) =
     (if may_be_nil (Kind t) \<or> Kind t = UnsafePointer then Returns (c = None)
      else Panics ''reflect: call of reflect.Value.IsNil on non-nilable Value'')"

section \<open>Errors, messages and the runtime\<close>

text \<open>
  One constructor for each \<^verbatim>\<open>fmt.Errorf\<close> of \<^verbatim>\<open>delay.go\<close> and \<^verbatim>\<open>conn.go\<close>, with
  its arguments, and \<open>EncodeFailed\<close> for the error of the gob encoder, which
  \<^verbatim>\<open>Function.Task\<close> returns as it is.
\<close>

datatype 'd error =
    NotAFunction
  | FirstArgumentNotContext
  | MultipleFunctions string string
  | TooFewArguments nat nat
  | TooManyArguments nat nat
  | NotNilable nat rtype
  | NotAssignable nat rtype rtype
  | EncodeFailed string
  | CannotDecodeCall string
  | NoFuncWithKey string
  | HandlerFailed "'d option"
  | CannotListen string
  | CannotSendInitial string
  | CannotReceiveTasks string
  | CannotAckTask string
  | CannotSendTasks string
  | ErrorClosing "'d error"

type_synonym bytes = "8 word list"

record 'd invocation =
  Key :: string
  Args :: "'d any list"

text \<open>\<^verbatim>\<open>pb.SendTask\<close> and \<^verbatim>\<open>pb.Task\<close>, with the fields the package reads or writes.\<close>

record SendTask =
  Payload :: bytes
  MinEta :: "nat option"

record pb_Task =
  task_Code :: string
  task_Payload :: bytes
  task_Project :: string
  task_QueueName :: string

datatype ListenRequest = Initial string string | Ack string bool

text \<open>
  What the package calls outside itself. \<open>AssignableTo\<close> is
  \<^verbatim>\<open>reflect.Type.AssignableTo\<close> (receiver first); \<open>gob_Encode\<close> and
  \<open>gob_Decode\<close> are a \<^verbatim>\<open>gob\<close> encoder and decoder on a fresh buffer, \<open>Inl\<close> their
  error text; \<open>WithTimeout\<close> is \<^verbatim>\<open>context.WithTimeout\<close> with the seconds;
  \<open>body\<close> runs the code of a function value on its arguments and gives the content of
  each result, or \<open>None\<close> when the function panics; \<open>group_ctx\<close> is the context of
  \<^verbatim>\<open>errgroup.WithContext(context.Background())\<close>; \<open>stream_Listen\<close> is the error of
  opening the stream, and \<open>stream_Send\<close> the error of a send, given the requests
  handed to the stream before it; \<open>client_SendTasks\<close> is the error of the remote call
  that submits a batch to a project's queue.
\<close>

record 'd runtime =
  AssignableTo :: "rtype \<Rightarrow> rtype \<Rightarrow> bool"
  gob_Encode :: "'d invocation \<Rightarrow> string + bytes"
  gob_Decode :: "bytes \<Rightarrow> string + 'd invocation"
  WithTimeout :: "'d any \<Rightarrow> nat \<Rightarrow> 'd any"
  body :: "'d \<Rightarrow> 'd Value list \<Rightarrow> (nat \<Rightarrow> 'd option) option"
  group_ctx :: "'d any"
  stream_Listen :: "string option"
  stream_Send :: "ListenRequest list \<Rightarrow> ListenRequest \<Rightarrow> string option"
  client_SendTasks :: "string \<Rightarrow> string \<Rightarrow> SendTask list \<Rightarrow> string option"

section \<open>The registry\<close>

definition contextType :: rtype where
  "contextType = Plain ''context.Context'' PInterface"

definition errorType :: rtype where
  "errorType = Plain ''error'' PInterface"

record 'd Function =
  fv :: "'d Value"
  key :: string
  err :: "'d error option"

text \<open>
  The package state. A \<^verbatim>\<open>*Function\<close> is an index into \<open>heap\<close>; \<open>funcs\<close> is the
  registry map, whose absent keys read as the nil pointer; \<open>gob_types\<close> are the types
  handed to \<^verbatim>\<open>gob.Register\<close>, in order.
\<close>

record 'd state =
  heap :: "'d Function list"
  funcs :: "string \<rightharpoonup> nat"
  gob_types :: "rtype list"

definition init_state :: "'d state" where
  "init_state = \<lparr>heap = [], funcs = Map.empty, gob_types = []\<rparr>"

text \<open>
  The registration loop of \<^verbatim>\<open>Func\<close>: every parameter type that is not of interface
  kind is registered with gob.
\<close>

fun register_params :: "rtype list \<Rightarrow> rtype list \<Rightarrow> rtype list" where
  "register_params [] reg = reg"
| "register_params (t # ts) reg =
     (if Kind t = Interface then register_params ts reg
      else register_params ts (reg @ [t]))"

text \<open>\<^verbatim>\<open>&Function{...}\<close>: the new object is placed at the end of the heap.\<close>

definition new_Function :: "'d Function \<Rightarrow> 'd state \<Rightarrow> nat \<times> 'd state" where
  "new_Function f s = (length (heap s), s\<lparr>heap := heap s @ [f]\<rparr>)"

text \<open>
  \<^verbatim>\<open>Func(key, i)\<close>, called from the source file \<open>file\<close> (what
  \<^verbatim>\<open>runtime.Caller(1)\<close> reports). The new object is filled in as a local record and
  stored when the function returns: no other pointer to it exists before that. The
  assignment \<^verbatim>\<open>old.err = ...\<close> goes through the pointer held by the registry.
\<close>

definition Func :: "string \<Rightarrow> string \<Rightarrow> 'd any \<Rightarrow> 'd state \<Rightarrow> (nat \<times> 'd state) exec" where
  "Func file k i s =
     (let f = \<lparr>fv = ValueOf i, key = file @ '':'' @ k, err = None\<rparr> in
      exec_bind (Type (fv f)) (\<lambda>t.
        if Kind t \<noteq> Func_kind then
          Returns (new_Function (f\<lparr>err := Some NotAFunction\<rparr>) s)
        else if NumIn t = Returns 0 \<or> In t 0 \<noteq> Returns contextType then
          Returns (new_Function (f\<lparr>err := Some FirstArgumentNotContext\<rparr>) s)
        else
          let s1 = s\<lparr>gob_types := register_params (params t) (gob_types s)\<rparr>;
              s2 = (case funcs s1 (key f) of
                      None \<Rightarrow> s1
                    | Some old \<Rightarrow>
                        s1\<lparr>heap := (heap s1)[old := (heap s1 ! old)\<lparr>err := Some (MultipleFunctions k file)\<rparr>]\<rparr>);
              (p, s3) = new_Function f s2
          in Returns (p, s3\<lparr>funcs := (funcs s3)(key f \<mapsto> p)\<rparr>)))"


section \<open>Building a task\<close>

text \<open>
  The loop \<^verbatim>\<open>for i := 1; i < nArgs; i++\<close> of \<^verbatim>\<open>Function.Task\<close>, at index \<open>i\<close>
  with the elements \<^verbatim>\<open>args[i-1:]\<close>. It returns those elements as the loop leaves them
  (the assignment \<^verbatim>\<open>args[i-1] = nil\<close> writes into the caller's slice) and the error it
  stopped at, if any. \<open>Task_dt\<close> is the type \<^verbatim>\<open>dt\<close> that the loop body selects
  for index \<open>i\<close>.
\<close>

definition Task_dt :: "rtype \<Rightarrow> nat \<Rightarrow> nat \<Rightarrow> rtype exec" where
  "Task_dt ft minArgs i =
     (if i < minArgs then In ft i else exec_bind (In ft minArgs) Elem)"

fun check_args ::
  "'d runtime \<Rightarrow> rtype \<Rightarrow> nat \<Rightarrow> nat \<Rightarrow> 'd any list \<Rightarrow> 'd any list \<times> 'd error option exec" where
  "check_args rt ft minArgs i [] = ([], Returns None)"
| "check_args rt ft minArgs i (a # rest) =
     (case Task_dt ft minArgs i of
        Panics m \<Rightarrow> (a # rest, Panics m)
      | Returns dt \<Rightarrow>
          (case TypeOf a of
             None \<Rightarrow>
               if may_be_nil (Kind dt)
               then apfst ((#) a) (check_args rt ft minArgs (i + 1) rest)
               else (a # rest, Returns (Some (NotNilable i dt)))
           | Some at \<Rightarrow>
               (case (if may_be_nil (Kind at) then IsNil (ValueOf a) else Returns False) of
                  Panics m \<Rightarrow> (a # rest, Panics m)
                | Returns isnil \<Rightarrow>
                    let a' = (if isnil then NilInterface else a) in
                    if \<not> AssignableTo rt at dt
                    then (a' # rest, Returns (Some (NotAssignable i at dt)))
                    else apfst ((#) a') (check_args rt ft minArgs (i + 1) rest))))"

text \<open>
  \<^verbatim>\<open>f.Task(args...)\<close> on the object \<open>f\<close>. The first component is the caller's
  slice after the call. \<open>n - 1\<close> is taken only for a variadic type, which has at least
  its final parameter.
\<close>

definition Task ::
  "'d runtime \<Rightarrow> 'd Function \<Rightarrow> 'd any list \<Rightarrow> 'd any list \<times> ('d error + SendTask) exec" where
  "Task rt f args =
     (case err f of
        Some e \<Rightarrow> (args, Returns (Inl e))
      | None \<Rightarrow>
          (case exec_bind (Type (fv f)) (\<lambda>ft.
                  exec_bind (NumIn ft) (\<lambda>n.
                  exec_bind (IsVariadic ft) (\<lambda>variadic. Returns (ft, n, variadic)))) of
             Panics m \<Rightarrow> (args, Panics m)
           | Returns (ft, n, variadic) \<Rightarrow>
               let nArgs = length args + 1;
                   minArgs = (if variadic then n - 1 else n)
               in if nArgs < minArgs
                  then (args, Returns (Inl (TooFewArguments nArgs minArgs)))
                  else if \<not> variadic \<and> nArgs > minArgs
                  then (args, Returns (Inl (TooManyArguments nArgs minArgs)))
                  else
                    (case check_args rt ft minArgs 1 args of
                       (args', Panics m) \<Rightarrow> (args', Panics m)
                     | (args', Returns (Some e)) \<Rightarrow> (args', Returns (Inl e))
                     | (args', Returns None) \<Rightarrow>
                         (case gob_Encode rt \<lparr>Key = key f, Args = args'\<rparr> of
                            Inl e \<Rightarrow> (args', Returns (Inl (EncodeFailed e)))
                          | Inr buf \<Rightarrow> (args', Returns (Inr \<lparr>Payload = buf, MinEta = None\<rparr>))))))"

text \<open>
  \<^verbatim>\<open>f.Call(ctx, queue, args...)\<close>, with \<^verbatim>\<open>QueueSpec.SendTasks\<close> of \<^verbatim>\<open>conn.go\<close>. A
  \<open>QueueSpec\<close> holds the project of its connection and the queue's name.
\<close>

record QueueSpec =
  project :: string
  name :: string

definition SendTasks :: "'d runtime \<Rightarrow> QueueSpec \<Rightarrow> SendTask list \<Rightarrow> 'd error option" where
  "SendTasks rt queue tasks =
     (case client_SendTasks rt (project queue) (name queue) tasks of
        Some e \<Rightarrow> Some (CannotSendTasks e)
      | None \<Rightarrow> None)"

definition Function_Call ::
  "'d runtime \<Rightarrow> 'd Function \<Rightarrow> QueueSpec \<Rightarrow> 'd any list \<Rightarrow> 'd any list \<times> 'd error option exec" where
  "Function_Call rt f queue args =
     (case Task rt f args of
        (args', Panics m) \<Rightarrow> (args', Panics m)
      | (args', Returns (Inl e)) \<Rightarrow> (args', Returns (Some e))
      | (args', Returns (Inr task)) \<Rightarrow> (args', Returns (SendTasks rt queue [task])))"

section \<open>Dispatching a task\<close>

text \<open>
  What dispatching does to the world: the handler invocations (the function value and
  the argument vector it was entered with), the errors handed to Sentry, and the
  requests handed to the stream, each in order.
\<close>

record 'd world =
  calls :: "('d Value \<times> 'd Value list) list"
  reported :: "'d error list"
  sent :: "ListenRequest list"

fun arg_ok :: "'d runtime \<Rightarrow> rtype \<Rightarrow> 'd Value \<Rightarrow> bool" where
  "arg_ok rt target ZeroValue = False"
| "arg_ok rt target (Value t c) = AssignableTo rt t target"

text \<open>
  \<^verbatim>\<open>reflect.Value.Call\<close>, after its documentation and source: it panics on a value that
  is not a function, on a nil function, on too few or (for a function that is not
  variadic) too many arguments, on a zero Value among the arguments, and on an argument
  that is not assignable to its parameter's type, or to the element type for the
  arguments it packs into the variadic slice. \<open>n\<close> is \<^verbatim>\<open>t.NumIn()\<close>, less one for a
  variadic function: the number of fixed parameters. Otherwise the function is entered
  (\<open>body\<close> is given the arguments as they were passed to \<^verbatim>\<open>Call\<close>); its results carry
  the declared result types.
\<close>

definition Value_Call ::
  "'d runtime \<Rightarrow> 'd Value \<Rightarrow> 'd Value list \<Rightarrow> 'd world \<Rightarrow> 'd world \<times> 'd Value list exec" where
  "Value_Call rt v inp w =
     (case v of
        ZeroValue \<Rightarrow> (w, Panics ''reflect: call of reflect.Value.Call on zero Value'')
      | Value t c \<Rightarrow>
          (case t of
             FuncOf nm ps variadic rs \<Rightarrow>
               (case c of
                  None \<Rightarrow> (w, Panics ''reflect.Value.Call: call of nil function'')
                | Some d \<Rightarrow>
                    let n = length ps
                    in if length inp < n
                       then (w, Panics ''reflect: Call with too few input arguments'')
                       else if variadic = None \<and> length inp > n
                       then (w, Panics ''reflect: Call with too many input arguments'')
                       else if ZeroValue \<in> set inp
                       then (w, Panics ''reflect: Call using zero Value argument'')
                       else if \<not> list_all2 (arg_ok rt) ps (take n inp)
                       then (w, Panics ''reflect: Call using wrong type'')
                       else if (case variadic of
                                  None \<Rightarrow> False
                                | Some elem \<Rightarrow> \<not> list_all (arg_ok rt elem) (drop n inp))
                       then (w, Panics ''reflect: cannot use argument in Call'')
                       else
                         (case body rt d inp of
                            None \<Rightarrow>
                              (w\<lparr>calls := calls w @ [(v, inp)]\<rparr>, Panics ''panic in the called function'')
                          | Some res \<Rightarrow>
                              (w\<lparr>calls := calls w @ [(v, inp)]\<rparr>,
                               Returns (map (\<lambda>j. Value (rs ! j) (res j)) [0..<length rs]))))
           | _ \<Rightarrow> (w, Panics ''reflect: call of reflect.Value.Call on non-func Value'')))"

text \<open>
  The loop \<^verbatim>\<open>for _, arg := range inv.Args\<close> of \<^verbatim>\<open>handleTask\<close>, with \<open>inp\<close> the
  vector \<^verbatim>\<open>in\<close> built so far. \<open>handleTask_at\<close> is the type \<^verbatim>\<open>at\<close> selected for
  the \<^verbatim>\<open>n\<close>th argument; \<^verbatim>\<open>ft.NumIn()-1\<close> is evaluated only for a variadic type.
\<close>

definition handleTask_at :: "rtype \<Rightarrow> nat \<Rightarrow> rtype exec" where
  "handleTask_at ft n =
     exec_bind (IsVariadic ft) (\<lambda>variadic.
       if \<not> variadic then In ft n
       else exec_bind (NumIn ft) (\<lambda>num.
         if n < num - 1 then In ft n
         else exec_bind (In ft (num - 1)) Elem))"

fun build_in :: "rtype \<Rightarrow> 'd any list \<Rightarrow> 'd Value list \<Rightarrow> 'd Value list exec" where
  "build_in ft [] inp = Returns inp"
| "build_in ft (arg # rest) inp =
     (case arg of
        Iface t c \<Rightarrow> build_in ft rest (inp @ [ValueOf arg])
      | NilInterface \<Rightarrow>
          (case handleTask_at ft (length inp) of
             Panics m \<Rightarrow> Panics m
           | Returns at \<Rightarrow> build_in ft rest (inp @ [Zero at])))"

fun content :: "'d Value \<Rightarrow> 'd option" where
  "content ZeroValue = None"
| "content (Value t c) = c"

text \<open>
  The end of \<^verbatim>\<open>handleTask\<close>: the error it returns for the results \<open>out\<close> of a
  handler of type \<open>ft\<close>.
\<close>

definition handler_error :: "rtype \<Rightarrow> 'd Value list \<Rightarrow> 'd error option exec" where
  "handler_error ft out =
     exec_bind (NumOut ft) (\<lambda>n.
       if n > 0 then
         exec_bind (Out ft (n - 1)) (\<lambda>t.
           if t = errorType then
             exec_bind (IsNil (out ! (n - 1))) (\<lambda>isnil.
               Returns (if \<not> isnil then Some (HandlerFailed (content (out ! (n - 1)))) else None))
           else Returns None)
       else Returns None)"

text \<open>
  \<^verbatim>\<open>handleTask(ctx, task)\<close> in the package state \<open>s\<close>. The deferred \<^verbatim>\<open>cancel\<close> has no
  effect that is modelled.
\<close>

definition handleTask ::
  "'d runtime \<Rightarrow> 'd state \<Rightarrow> 'd any \<Rightarrow> pb_Task \<Rightarrow> 'd world \<Rightarrow> 'd world \<times> 'd error option exec" where
  "handleTask rt s ctx task w =
     (let ctx' = WithTimeout rt ctx 30 in
      case gob_Decode rt (task_Payload task) of
        Inl e \<Rightarrow> (w, Returns (Some (CannotDecodeCall e)))
      | Inr invoc \<Rightarrow>
          (case funcs s (Key invoc) of
             None \<Rightarrow> (w, Returns (Some (NoFuncWithKey (Key invoc))))
           | Some p \<Rightarrow>
               let f = heap s ! p in
               (case exec_bind (Type (fv f)) (\<lambda>ft.
                       exec_bind (build_in ft (Args invoc) [ValueOf ctx']) (\<lambda>inp. Returns (ft, inp))) of
                  Panics m \<Rightarrow> (w, Panics m)
                | Returns (ft, inp) \<Rightarrow>
                    (case Value_Call rt (fv f) inp w of
                       (w', Panics m) \<Rightarrow> (w', Panics m)
                     | (w', Returns out) \<Rightarrow> (w', handler_error ft out)))))"

section \<open>The streaming listener\<close>

record Listener =
  sentryClient :: "string option"


text \<open>
  The goroutine that \<^verbatim>\<open>listenQueue\<close> starts for a received task: it dispatches the
  task, reports a failure, and hands one \<^verbatim>\<open>Ack\<close> to the stream. Its result is the error
  it returns to the group.
\<close>

definition task_goroutine ::
  "'d runtime \<Rightarrow> Listener \<Rightarrow> 'd state \<Rightarrow> pb_Task \<Rightarrow> 'd world \<Rightarrow> 'd world \<times> 'd error option exec" where
  "task_goroutine rt lis s task w =
     (case handleTask rt s (group_ctx rt) task w of
        (w1, Panics m) \<Rightarrow> (w1, Panics m)
      | (w1, Returns r) \<Rightarrow>
          let failed = (r \<noteq> None);
              w2 = (case r of
                      None \<Rightarrow> w1
                    | Some e \<Rightarrow>
                        if sentryClient lis \<noteq> None then w1\<lparr>reported := reported w1 @ [e]\<rparr> else w1);
              req = Ack (task_Code task) (\<not> failed)
          in (w2\<lparr>sent := sent w2 @ [req]\<rparr>,
              Returns (case stream_Send rt (sent w2) req of
                         Some e \<Rightarrow> Some (CannotAckTask e)
                       | None \<Rightarrow> None)))"

text \<open>
  The receive loop, over the results of the successive \<^verbatim>\<open>stream.Recv()\<close> calls
  (\<open>Inl\<close> an error). Each goroutine is run where it is started, so the tasks are handled
  in the order of receipt, one of the schedules of the Go program. \<open>first\<close> is the
  first error a goroutine returned to the group, which \<^verbatim>\<open>group.Wait\<close> reports. The
  loop has not returned (\<open>None\<close>) while \<^verbatim>\<open>Recv\<close> has given no error; a panic ends the
  process.
\<close>

fun recv_loop ::
  "'d runtime \<Rightarrow> Listener \<Rightarrow> 'd state \<Rightarrow> (string + pb_Task) list \<Rightarrow> 'd error option \<Rightarrow> 'd world
     \<Rightarrow> 'd world \<times> 'd error exec option" where
  "recv_loop rt lis s [] first w = (w, None)"
| "recv_loop rt lis s (Inl e # evs) first w =
     (w, Some (Returns (case first of None \<Rightarrow> CannotReceiveTasks e | Some e0 \<Rightarrow> e0)))"
| "recv_loop rt lis s (Inr task # evs) first w =
     (case task_goroutine rt lis s task w of
        (w', Panics m) \<Rightarrow> (w', Some (Panics m))
      | (w', Returns r) \<Rightarrow>
          recv_loop rt lis s evs (case first of None \<Rightarrow> r | Some e0 \<Rightarrow> Some e0) w')"

text \<open>
  \<^verbatim>\<open>lis.listenQueue(queue)\<close> on a connection without a redis client (the streaming
  branch), given what \<^verbatim>\<open>Recv\<close> delivers.
\<close>

definition listenQueue ::
  "'d runtime \<Rightarrow> Listener \<Rightarrow> 'd state \<Rightarrow> QueueSpec \<Rightarrow> (string + pb_Task) list \<Rightarrow> 'd world
     \<Rightarrow> 'd world \<times> 'd error exec option" where
  "listenQueue rt lis s queue evs w =
     (case stream_Listen rt of
        Some e \<Rightarrow> (w, Some (Returns (CannotListen e)))
      | None \<Rightarrow>
          let initial = Initial (project queue) (name queue);
              w1 = w\<lparr>sent := sent w @ [initial]\<rparr>
          in (case stream_Send rt (sent w) initial of
                Some e \<Rightarrow> (w1, Some (Returns (CannotSendInitial e)))
              | None \<Rightarrow>
                  (case recv_loop rt lis s evs None w1 of
                     (w', Some (Returns e)) \<Rightarrow> (w', Some (Returns (ErrorClosing e)))
                   | (w', r) \<Rightarrow> (w', r))))"


section \<open>Notions used to state the properties\<close>

text \<open>
  The two checks of \<^verbatim>\<open>Func\<close> on the value it is given: it is of function kind, and its
  first parameter is \<^verbatim>\<open>context.Context\<close>.
\<close>

definition shape_ok :: "'d Value \<Rightarrow> bool" where
  "shape_ok v =
     (case v of
        ZeroValue \<Rightarrow> False
      | Value t c \<Rightarrow> Kind t = Func_kind \<and> params t \<noteq> [] \<and> params t ! 0 = contextType)"

text \<open>
  Process start-up: successive calls of \<^verbatim>\<open>Func\<close>, each with the file of its call site,
  its key and its value. A panic ends the process.
\<close>

fun Funcs :: "(string \<times> string \<times> 'd any) list \<Rightarrow> 'd state \<Rightarrow> 'd state exec" where
  "Funcs [] s = Returns s"
| "Funcs ((file, k, i) # rs) s =
     (case Func file k i s of
        Panics m \<Rightarrow> Panics m
      | Returns (p, s') \<Rightarrow> Funcs rs s')"

text \<open>
  The registry invariant: every entry of \<open>funcs\<close> points to an object of the heap that
  carries the entry's key, no error, and a value that passed the checks; and every object
  without an error is the entry of its key.
\<close>

definition registry_ok :: "'d state \<Rightarrow> bool" where
  "registry_ok s =
     ((\<forall>k p. funcs s k = Some p \<longrightarrow>
          p < length (heap s) \<and> key (heap s ! p) = k \<and> err (heap s ! p) = None
          \<and> shape_ok (fv (heap s ! p)))
      \<and> (\<forall>p < length (heap s). err (heap s ! p) = None \<longrightarrow> funcs s (key (heap s ! p)) = Some p))"

text \<open>The heap once \<^verbatim>\<open>Func\<close> has set the error of the entry it is about to replace.\<close>

definition marked_heap :: "'d state \<Rightarrow> string \<Rightarrow> 'd error \<Rightarrow> 'd Function list" where
  "marked_heap s kk e =
     (case funcs s kk of
        None \<Rightarrow> heap s
      | Some old \<Rightarrow> (heap s)[old := (heap s ! old)\<lparr>err := Some e\<rparr>])"

text \<open>
  The statically declared type for position \<open>i\<close> of the argument vector (position 0 is
  the context): the parameter at that position among the fixed ones, the element type of
  the variadic parameter beyond them.
\<close>

fun declared :: "rtype \<Rightarrow> nat \<Rightarrow> rtype option" where
  "declared (FuncOf nm ps v rs) i = (if i < length ps then Some (ps ! i) else v)"
| "declared t i = None"

text \<open>
  What \<^verbatim>\<open>Function.Task\<close> leaves in the slice for an element it has validated: a nil
  chan, func, map, pointer or slice boxed in an interface becomes the nil interface.
\<close>

fun normalize :: "'d any \<Rightarrow> 'd any" where
  "normalize NilInterface = NilInterface"
| "normalize (Iface t c) = (if may_be_nil (Kind t) \<and> c = None then NilInterface else Iface t c)"

text \<open>
  The two tests that the loop of \<^verbatim>\<open>Function.Task\<close> applies to an element against the
  declared type \<open>dt\<close>: a nil interface needs a kind that may be nil, any other value a
  type assignable to \<open>dt\<close>.
\<close>

definition accepted :: "'d runtime \<Rightarrow> rtype \<Rightarrow> 'd any \<Rightarrow> bool" where
  "accepted rt dt a =
     (case TypeOf a of
        None \<Rightarrow> may_be_nil (Kind dt)
      | Some at \<Rightarrow> AssignableTo rt at dt)"

text \<open>
  The argument counts that pass the two arity tests of \<^verbatim>\<open>Function.Task\<close> for a
  function with \<open>fixed\<close> fixed parameters (the context among them).
\<close>

definition arity_ok :: "nat \<Rightarrow> bool \<Rightarrow> nat \<Rightarrow> bool" where
  "arity_ok fixed variadic nargs =
     (if variadic then fixed \<le> nargs + 1 else nargs + 1 = fixed)"

text \<open>The argument index named by the two messages "argument %d has wrong type".\<close>

fun type_error_at :: "'d error \<Rightarrow> nat option" where
  "type_error_at (NotNilable i dt) = Some i"
| "type_error_at (NotAssignable i at dt) = Some i"
| "type_error_at e = None"

fun arity_error :: "'d error \<Rightarrow> bool" where
  "arity_error (TooFewArguments n m) = True"
| "arity_error (TooManyArguments n m) = True"
| "arity_error e = False"

text \<open>
  The vector that \<^verbatim>\<open>handleTask\<close> is expected to build from decoded arguments, from
  position \<open>n\<close> on: a present value as it is, the zero value of the declared type for a
  nil.
\<close>

fun delivered :: "rtype \<Rightarrow> nat \<Rightarrow> 'd any list \<Rightarrow> 'd Value list" where
  "delivered ft n [] = []"
| "delivered ft n (a # rest) =
     (case a of
        Iface t c \<Rightarrow> Value t c
      | NilInterface \<Rightarrow> (case declared ft n of Some t \<Rightarrow> Zero t | None \<Rightarrow> ZeroValue))
     # delivered ft (n + 1) rest"




section \<open>An instance\<close>

text \<open>
  A runtime over natural numbers as data, for concrete runs: a type is assignable to
  itself and to every interface type; gob is a code book of the invocations it can
  encode; the function with data 0 panics, the function with data 1 returns zero values
  (a nil error), any other function returns its data in every result.
\<close>

definition intT :: rtype where
  "intT = Plain ''int'' PInt"

definition stringT :: rtype where
  "stringT = Plain ''string'' PString"

definition ptrT :: rtype where
  "ptrT = PtrTo [] (Plain ''main.T'' PStruct)"

definition timerCtxT :: rtype where
  "timerCtxT = PtrTo [] (Plain ''context.timerCtx'' PStruct)"

definition book_runtime :: "(nat invocation \<times> bytes) list \<Rightarrow> nat runtime" where
  "book_runtime book =
     \<lparr>AssignableTo = (\<lambda>a b. a = b \<or> Kind b = Interface),
      gob_Encode = (\<lambda>iv. case map_of book iv of
                           None \<Rightarrow> Inl ''gob: type not registered for interface''
                         | Some b \<Rightarrow> Inr b),
      gob_Decode = (\<lambda>b. case map_of (map (\<lambda>(iv, b). (b, iv)) book) b of
                          None \<Rightarrow> Inl ''unexpected EOF''
                        | Some iv \<Rightarrow> Inr iv),
      WithTimeout = (\<lambda>ctx n. Iface timerCtxT (Some 30)),
      body = (\<lambda>d inp. if d = 0 then None else Some (\<lambda>j. if d = 1 then None else Some d)),
      group_ctx = Iface timerCtxT (Some 0),
      stream_Listen = None,
      stream_Send = (\<lambda>before req. None),
      client_SendTasks = (\<lambda>proj queue tasks. None)\<rparr>"

text \<open>\<^verbatim>\<open>func(ctx context.Context, n int) error\<close>.\<close>

definition handlerT :: rtype where
  "handlerT = FuncOf [] [contextType, intT] None [errorType]"

text \<open>\<^verbatim>\<open>func(ctx context.Context, n int, rest ...*T) error\<close>.\<close>

definition variadicT :: rtype where
  "variadicT = FuncOf [] [contextType, intT] (Some ptrT) [errorType]"

text \<open>\<^verbatim>\<open>func(ctx context.Context, rest ...int)\<close>.\<close>

definition restT :: rtype where
  "restT = FuncOf [] [contextType] (Some intT) []"

text \<open>
  Function objects as \<^verbatim>\<open>Func\<close> creates them for handlers of these types: \<^verbatim>\<open>k\<close>
  returns a nil error and \<^verbatim>\<open>fail\<close> an error that is not nil.
\<close>

definition int_handler :: "nat Function" where
  "int_handler = \<lparr>fv = Value handlerT (Some 1), key = ''main.go:k'', err = None\<rparr>"

definition failing_handler :: "nat Function" where
  "failing_handler = \<lparr>fv = Value handlerT (Some 2), key = ''main.go:fail'', err = None\<rparr>"

definition variadic_handler :: "nat Function" where
  "variadic_handler = \<lparr>fv = Value variadicT (Some 1), key = ''main.go:v'', err = None\<rparr>"

definition rest_handler :: "nat Function" where
  "rest_handler = \<lparr>fv = Value restT (Some 1), key = ''main.go:r'', err = None\<rparr>"

text \<open>The four registrations of a program's start-up, and the state they lead to.\<close>

definition demo_regs :: "(string \<times> string \<times> nat any) list" where
  "demo_regs =
     [(''main.go'', ''k'', Iface handlerT (Some 1)),
      (''main.go'', ''fail'', Iface handlerT (Some 2)),
      (''main.go'', ''v'', Iface variadicT (Some 1)),
      (''main.go'', ''r'', Iface restT (Some 1))]"

definition demo_state :: "nat state" where
  "demo_state =
     \<lparr>heap = [int_handler, failing_handler, variadic_handler, rest_handler],
      funcs = [''main.go:k'' \<mapsto> 0, ''main.go:fail'' \<mapsto> 1, ''main.go:v'' \<mapsto> 2, ''main.go:r'' \<mapsto> 3],
      gob_types = [intT, intT, intT, SliceOf [] ptrT, SliceOf [] intT]\<rparr>"

text \<open>
  A code book with the invocations \<^verbatim>\<open>r()\<close>, \<^verbatim>\<open>k(5)\<close>, \<^verbatim>\<open>k()\<close>,
  \<^verbatim>\<open>v(7, nil, p)\<close>, \<^verbatim>\<open>fail(5)\<close>, \<^verbatim>\<open>k(nil)\<close> and \<^verbatim>\<open>bad()\<close>.
\<close>

definition demo_book :: "(nat invocation \<times> bytes) list" where
  "demo_book =
     [(\<lparr>Key = ''main.go:r'', Args = []\<rparr>, [1]),
      (\<lparr>Key = ''main.go:k'', Args = [Iface intT (Some 5)]\<rparr>, [2]),
      (\<lparr>Key = ''main.go:k'', Args = []\<rparr>, [3]),
      (\<lparr>Key = ''main.go:v'', Args = [Iface intT (Some 7), NilInterface, Iface ptrT (Some 3)]\<rparr>, [4]),
      (\<lparr>Key = ''main.go:fail'', Args = [Iface intT (Some 5)]\<rparr>, [5]),
      (\<lparr>Key = ''main.go:k'', Args = [NilInterface]\<rparr>, [6]),
      (\<lparr>Key = ''main.go:bad'', Args = []\<rparr>, [7])]"

definition demo_rt :: "nat runtime" where
  "demo_rt = book_runtime demo_book"

text \<open>
  The states after \<^verbatim>\<open>Func("k", h)\<close> has been called once and twice from main.go, and
  after \<^verbatim>\<open>Func("bad", 5)\<close> and \<^verbatim>\<open>Func("k", h)\<close>.
\<close>

definition once_state :: "nat state" where
  "once_state =
     \<lparr>heap = [int_handler], funcs = [''main.go:k'' \<mapsto> 0], gob_types = [intT]\<rparr>"

definition twice_state :: "nat state" where
  "twice_state =
     \<lparr>heap = [int_handler\<lparr>err := Some (MultipleFunctions ''k'' ''main.go'')\<rparr>,
              \<lparr>fv = Value handlerT (Some 2), key = ''main.go:k'', err = None\<rparr>],
      funcs = [''main.go:k'' \<mapsto> 1],
      gob_types = [intT, intT]\<rparr>"

definition mixed_regs :: "(string \<times> string \<times> nat any) list" where
  "mixed_regs =
     [(''main.go'', ''bad'', Iface intT (Some 5)),
      (''main.go'', ''k'', Iface handlerT (Some 1))]"

definition mixed_state :: "nat state" where
  "mixed_state =
     \<lparr>heap = [\<lparr>fv = Value intT (Some 5), key = ''main.go:bad'', err = Some NotAFunction\<rparr>,
              int_handler],
      funcs = [''main.go:k'' \<mapsto> 1],
      gob_types = [intT]\<rparr>"

text \<open>
  \<^verbatim>\<open>Func("k", 5)\<close> followed by \<^verbatim>\<open>Func("k", h)\<close>, both from main.go, and the state they
  lead to.
\<close>

definition shadow_regs :: "(string \<times> string \<times> nat any) list" where
  "shadow_regs =
     [(''main.go'', ''k'', Iface intT (Some 5)),
      (''main.go'', ''k'', Iface handlerT (Some 1))]"

definition shadow_state :: "nat state" where
  "shadow_state =
     \<lparr>heap = [\<lparr>fv = Value intT (Some 5), key = ''main.go:k'', err = Some NotAFunction\<rparr>,
              int_handler],
      funcs = [''main.go:k'' \<mapsto> 1],
      gob_types = [intT]\<rparr>"

definition demo_queue :: QueueSpec where
  "demo_queue = \<lparr>project = ''proj'', name = ''q''\<rparr>"

definition demo_task :: "string \<Rightarrow> bytes \<Rightarrow> pb_Task" where
  "demo_task code payload =
     \<lparr>task_Code = code, task_Payload = payload, task_Project = ''proj'', task_QueueName = ''q''\<rparr>"

definition world0 :: "nat world" where
  "world0 = \<lparr>calls = [], reported = [], sent = []\<rparr>"

section \<open>Registrations keep the registry well formed\<close>

lemma Func_nil: "Func file k NilInterface s = Panics ''reflect: call of reflect.Value.Type on zero Value''"
  by (simp add: Func_def)

lemma Func_bad_shape:
  "\<not> shape_ok (Value t c) \<Longrightarrow>
   \<exists>e. Func file k (Iface t c) s =
     Returns (length (heap s), s\<lparr>heap := heap s @ [\<lparr>fv = Value t c, key = file @ '':'' @ k, err = Some e\<rparr>]\<rparr>)"
  by (auto simp add: Func_def shape_ok_def new_Function_def Let_def NumIn_def In_def)

lemma Func_good_shape:
  "shape_ok (Value t c) \<Longrightarrow>
   Func file k (Iface t c) s =
     Returns (length (heap s),
       \<lparr>heap = (case funcs s (file @ '':'' @ k) of
                  None \<Rightarrow> heap s
                | Some old \<Rightarrow> (heap s)[old := (heap s ! old)\<lparr>err := Some (MultipleFunctions k file)\<rparr>])
               @ [\<lparr>fv = Value t c, key = file @ '':'' @ k, err = None\<rparr>],
        funcs = (funcs s)(file @ '':'' @ k \<mapsto> length (heap s)),
        gob_types = register_params (params t) (gob_types s)\<rparr>)"
  by (auto simp add: Func_def shape_ok_def new_Function_def Let_def NumIn_def In_def split: option.splits)


lemma registry_ok_funcs:
  "registry_ok s \<Longrightarrow> funcs s k = Some p \<Longrightarrow>
   p < length (heap s) \<and> key (heap s ! p) = k \<and> err (heap s ! p) = None \<and> shape_ok (fv (heap s ! p))"
  unfolding registry_ok_def by blast

lemma registry_ok_live:
  "registry_ok s \<Longrightarrow> p < length (heap s) \<Longrightarrow> err (heap s ! p) = None \<Longrightarrow>
   funcs s (key (heap s ! p)) = Some p"
  unfolding registry_ok_def by blast

lemma registry_ok_bad:
  assumes ok: "registry_ok s"
  shows "registry_ok (s\<lparr>heap := heap s @ [\<lparr>fv = v, key = kk, err = Some e\<rparr>]\<rparr>)"
  unfolding registry_ok_def
proof (rule conjI; intro allI impI)
  fix k p
  assume "funcs (s\<lparr>heap := heap s @ [\<lparr>fv = v, key = kk, err = Some e\<rparr>]\<rparr>) k = Some p"
  then have "funcs s k = Some p" by simp
  from registry_ok_funcs[OF ok this]
  show "p < length (heap (s\<lparr>heap := heap s @ [\<lparr>fv = v, key = kk, err = Some e\<rparr>]\<rparr>)) \<and>
        key (heap (s\<lparr>heap := heap s @ [\<lparr>fv = v, key = kk, err = Some e\<rparr>]\<rparr>) ! p) = k \<and>
        err (heap (s\<lparr>heap := heap s @ [\<lparr>fv = v, key = kk, err = Some e\<rparr>]\<rparr>) ! p) = None \<and>
        shape_ok (fv (heap (s\<lparr>heap := heap s @ [\<lparr>fv = v, key = kk, err = Some e\<rparr>]\<rparr>) ! p))"
    by (simp add: nth_append)
next
  fix p
  assume p: "p < length (heap (s\<lparr>heap := heap s @ [\<lparr>fv = v, key = kk, err = Some e\<rparr>]\<rparr>))"
    and e: "err (heap (s\<lparr>heap := heap s @ [\<lparr>fv = v, key = kk, err = Some e\<rparr>]\<rparr>) ! p) = None"
  have "p < length (heap s)"
  proof (rule ccontr)
    assume "\<not> p < length (heap s)"
    with p have "p = length (heap s)" by simp
    with e show False by simp
  qed
  with e have "err (heap s ! p) = None" by (simp add: nth_append)
  from registry_ok_live[OF ok \<open>p < length (heap s)\<close> this] \<open>p < length (heap s)\<close>
  show "funcs (s\<lparr>heap := heap s @ [\<lparr>fv = v, key = kk, err = Some e\<rparr>]\<rparr>)
          (key (heap (s\<lparr>heap := heap s @ [\<lparr>fv = v, key = kk, err = Some e\<rparr>]\<rparr>) ! p)) = Some p"
    by (simp add: nth_append)
qed

lemma length_marked_heap [simp]: "length (marked_heap s kk e) = length (heap s)"
  by (simp add: marked_heap_def split: option.splits)

lemma marked_heap_nth:
  "p < length (heap s) \<Longrightarrow>
   marked_heap s kk e ! p = (if funcs s kk = Some p then (heap s ! p)\<lparr>err := Some e\<rparr> else heap s ! p)"
  by (auto simp add: marked_heap_def nth_list_update split: option.splits)

lemma registry_ok_good:
  assumes ok: "registry_ok s" and sh: "shape_ok v"
  shows "registry_ok \<lparr>heap = marked_heap s kk e @ [\<lparr>fv = v, key = kk, err = None\<rparr>],
                      funcs = (funcs s)(kk \<mapsto> length (heap s)), gob_types = g\<rparr>"
    (is "registry_ok ?s'")
  unfolding registry_ok_def
proof (rule conjI; intro allI impI)
  fix k p
  assume f: "funcs ?s' k = Some p"
  show "p < length (heap ?s') \<and> key (heap ?s' ! p) = k \<and> err (heap ?s' ! p) = None \<and>
        shape_ok (fv (heap ?s' ! p))"
  proof (cases "k = kk")
    case True
    with f have "p = length (heap s)" by simp
    then show ?thesis using sh True by (simp add: nth_append)
  next
    case False
    with f have f0: "funcs s k = Some p" by simp
    from registry_ok_funcs[OF ok f0] have p: "p < length (heap s)" and kp: "key (heap s ! p) = k"
      and ep: "err (heap s ! p) = None" and sp: "shape_ok (fv (heap s ! p))" by auto
    have "funcs s kk \<noteq> Some p" using f0 False registry_ok_funcs[OF ok, of kk p] kp by auto
    then show ?thesis using p kp ep sp by (simp add: nth_append marked_heap_nth)
  qed
next
  fix p
  assume p: "p < length (heap ?s')" and e: "err (heap ?s' ! p) = None"
  show "funcs ?s' (key (heap ?s' ! p)) = Some p"
  proof (cases "p < length (heap s)")
    case False
    with p have "p = length (heap s)" by simp
    then show ?thesis by (simp add: nth_append)
  next
    case True
    with e have not_old: "funcs s kk \<noteq> Some p" and e0: "err (heap s ! p) = None"
      by (auto simp add: nth_append marked_heap_nth split: if_splits)
    from registry_ok_live[OF ok True e0] have live: "funcs s (key (heap s ! p)) = Some p" .
    with not_old have "key (heap s ! p) \<noteq> kk" by auto
    then show ?thesis using True not_old live by (simp add: nth_append marked_heap_nth)
  qed
qed

lemma Func_good_shape':
  "shape_ok (Value t c) \<Longrightarrow>
   Func file k (Iface t c) s =
     Returns (length (heap s),
       \<lparr>heap = marked_heap s (file @ '':'' @ k) (MultipleFunctions k file)
               @ [\<lparr>fv = Value t c, key = file @ '':'' @ k, err = None\<rparr>],
        funcs = (funcs s)(file @ '':'' @ k \<mapsto> length (heap s)),
        gob_types = register_params (params t) (gob_types s)\<rparr>)"
  by (simp add: Func_good_shape marked_heap_def)

lemma Func_registry_ok:
  assumes "registry_ok s" and "Func file k i s = Returns (p, s')"
  shows "registry_ok s'"
proof (cases i)
  case NilInterface
  with assms show ?thesis by (simp add: Func_nil)
next
  case (Iface t c)
  show ?thesis
  proof (cases "shape_ok (Value t c)")
    case False
    from Func_bad_shape[OF False, of "file" k s] assms(2) Iface
    obtain e where s': "s' = s\<lparr>heap := heap s @ [\<lparr>fv = Value t c, key = file @ '':'' @ k, err = Some e\<rparr>]\<rparr>"
      by auto
    show ?thesis unfolding s' by (rule registry_ok_bad[OF assms(1)])
  next
    case True
    from Func_good_shape'[OF True, of "file" k s] assms(2) Iface
    show ?thesis using registry_ok_good[OF assms(1) True] by auto
  qed
qed

lemma registry_ok_init: "registry_ok init_state"
  by (simp add: registry_ok_def init_state_def)

lemma Funcs_registry_ok:
  "registry_ok s \<Longrightarrow> Funcs regs s = Returns s' \<Longrightarrow> registry_ok s'"
proof (induction regs arbitrary: s)
  case Nil
  then show ?case by simp
next
  case (Cons r regs)
  obtain fl k i where r: "r = (fl, k, i)" by (cases r) auto
  from Cons.prems(2) r obtain p s1 where 1: "Func fl k i s = Returns (p, s1)" and 2: "Funcs regs s1 = Returns s'"
    by (auto split: exec.splits)
  from Cons.IH[OF Func_registry_ok[OF Cons.prems(1) 1] 2] show ?case .
qed


section \<open>The validation loop of Task\<close>

lemma declared_In:
  "declared (FuncOf nm ps v rs) i = Some dt \<Longrightarrow>
   Task_dt (FuncOf nm ps v rs) (length ps) i = Returns dt"
  by (cases v) (auto simp add: Task_dt_def In_def nth_append split: if_splits)

lemma check_args_length:
  "length (fst (check_args rt ft m i args)) = length args"
  by (induction args arbitrary: i)
     (auto simp add: Let_def split: exec.splits option.splits)

lemma check_args_passed:
  "check_args rt ft m i args = (args', Returns None) \<Longrightarrow> args' = map normalize args"
proof (induction args arbitrary: i args')
  case Nil
  then show ?case by simp
next
  case (Cons a rest)
  obtain r' q where rec: "check_args rt ft m (i + 1) rest = (r', q)" by (cases "check_args rt ft m (i + 1) rest")
  from Cons.prems rec have q: "q = Returns None"
    by (cases a) (auto simp add: Let_def split: exec.splits option.splits if_splits)
  from Cons.IH[OF rec[unfolded q]] have r': "r' = map normalize rest" .
  from Cons.prems rec q r' show ?case
    by (cases a) (auto simp add: Let_def split: exec.splits option.splits if_splits)
qed


lemma check_args_step_pass:
  assumes "check_args rt ft m i (a # rest) = (args', Returns None)"
  shows "\<exists>dt r'. Task_dt ft m (i) = Returns dt
          \<and> (case TypeOf a of None \<Rightarrow> may_be_nil (Kind dt) | Some at \<Rightarrow> AssignableTo rt at dt)
          \<and> check_args rt ft m (i + 1) rest = (r', Returns None)"
proof -
  obtain r' q where rec: "check_args rt ft m (i + 1) rest = (r', q)"
    by (cases "check_args rt ft m (i + 1) rest")
  from assms rec show ?thesis
    by (cases a) (auto simp add: Let_def split: exec.splits option.splits if_splits)
qed

lemma check_args_all_pass:
  "check_args rt ft m i args = (args', Returns None) \<Longrightarrow> k < length args \<Longrightarrow>
   \<exists>dt. Task_dt ft m (i + k) = Returns dt
        \<and> (case TypeOf (args ! k) of None \<Rightarrow> may_be_nil (Kind dt) | Some at \<Rightarrow> AssignableTo rt at dt)"
proof (induction args arbitrary: i k args')
  case Nil
  then show ?case by simp
next
  case (Cons a rest)
  from check_args_step_pass[OF Cons.prems(1)] obtain dt r' where
    dt: "Task_dt ft m (i) = Returns dt"
    and ok: "(case TypeOf a of None \<Rightarrow> may_be_nil (Kind dt) | Some at \<Rightarrow> AssignableTo rt at dt)"
    and rec: "check_args rt ft m (i + 1) rest = (r', Returns None)" by blast
  show ?case
  proof (cases k)
    case 0
    with dt ok show ?thesis by auto
  next
    case (Suc k')
    with Cons.prems(2) have "k' < length rest" by simp
    from Cons.IH[OF rec this] Suc show ?thesis by simp
  qed
qed

lemma check_args_failed:
  "check_args rt ft m i args = (args', Returns (Some e)) \<Longrightarrow>
   \<exists>k dt. k < length args
     \<and> args' = map normalize (take (Suc k) args) @ drop (Suc k) args
     \<and> Task_dt ft m (i + k) = Returns dt
     \<and> (case TypeOf (args ! k) of
           None \<Rightarrow> e = NotNilable (i + k) dt \<and> \<not> may_be_nil (Kind dt)
         | Some at \<Rightarrow> e = NotAssignable (i + k) at dt \<and> \<not> AssignableTo rt at dt)
     \<and> (\<forall>j<k. \<exists>dt'. Task_dt ft m (i + j) = Returns dt'
           \<and> (case TypeOf (args ! j) of None \<Rightarrow> may_be_nil (Kind dt') | Some at \<Rightarrow> AssignableTo rt at dt'))"
proof (induction args arbitrary: i args')
  case Nil
  then show ?case by simp
next
  case (Cons a rest)
  obtain r' q where rec: "check_args rt ft m (i + 1) rest = (r', q)"
    by (cases "check_args rt ft m (i + 1) rest")
  obtain dt where dt: "Task_dt ft m (i) = Returns dt"
    using Cons.prems by (auto split: exec.splits)
  let ?pass = "(case TypeOf a of None \<Rightarrow> may_be_nil (Kind dt) | Some at \<Rightarrow> AssignableTo rt at dt)"
  show ?case
  proof (cases ?pass)
    case False
    with Cons.prems dt have "args' = normalize a # rest"
      and "(case TypeOf a of
           None \<Rightarrow> e = NotNilable i dt \<and> \<not> may_be_nil (Kind dt)
         | Some at \<Rightarrow> e = NotAssignable i at dt \<and> \<not> AssignableTo rt at dt)"
      by (cases a; auto simp add: Let_def split: exec.splits option.splits if_splits)+
    with dt show ?thesis by (intro exI[of _ 0] exI[of _ dt]) (auto split: option.splits)
  next
    case True
    with Cons.prems dt rec have q: "q = Returns (Some e)" and a': "args' = normalize a # r'"
      by (cases a; auto simp add: Let_def split: exec.splits option.splits if_splits)+
    from Cons.IH[OF rec[unfolded q]] obtain k dt2 where
      k: "k < length rest" and r': "r' = map normalize (take (Suc k) rest) @ drop (Suc k) rest"
      and dt2: "Task_dt ft m (i + 1 + k) = Returns dt2"
      and bad: "(case TypeOf (rest ! k) of
           None \<Rightarrow> e = NotNilable (i + 1 + k) dt2 \<and> \<not> may_be_nil (Kind dt2)
         | Some at \<Rightarrow> e = NotAssignable (i + 1 + k) at dt2 \<and> \<not> AssignableTo rt at dt2)"
      and before: "\<forall>j<k. \<exists>dt'. Task_dt ft m (i + 1 + j) = Returns dt'
           \<and> (case TypeOf (rest ! j) of None \<Rightarrow> may_be_nil (Kind dt') | Some at \<Rightarrow> AssignableTo rt at dt')"
      by blast
    have all: "\<forall>j<Suc k. \<exists>dt'. Task_dt ft m (i + j) = Returns dt'
           \<and> (case TypeOf ((a # rest) ! j) of None \<Rightarrow> may_be_nil (Kind dt') | Some at \<Rightarrow> AssignableTo rt at dt')"
    proof (intro allI impI)
      fix j assume j: "j < Suc k"
      show "\<exists>dt'. Task_dt ft m (i + j) = Returns dt'
           \<and> (case TypeOf ((a # rest) ! j) of None \<Rightarrow> may_be_nil (Kind dt') | Some at \<Rightarrow> AssignableTo rt at dt')"
      proof (cases j)
        case 0
        with dt True show ?thesis by auto
      next
        case (Suc j')
        with j before show ?thesis by simp
      qed
    qed
    show ?thesis
      apply (intro exI[of _ "Suc k"] exI[of _ dt2])
      using k r' dt2 bad all a' by (auto split: option.splits)
  qed
qed

lemma check_args_no_panic:
  "(v = None \<longrightarrow> i + length args \<le> length ps) \<Longrightarrow>
   snd (check_args rt (FuncOf nm ps v rs) (length ps) i args) \<noteq> Panics msg"
proof (induction args arbitrary: i)
  case Nil
  then show ?case by simp
next
  case (Cons a rest)
  from Cons.prems obtain dt where d: "declared (FuncOf nm ps v rs) i = Some dt"
    by (cases v; cases "i < length ps") auto
  from Cons.prems have "v = None \<longrightarrow> (i + 1) + length rest \<le> length ps" by simp
  from Cons.IH[OF this] have rec: "snd (check_args rt (FuncOf nm ps v rs) (length ps) (i + 1) rest) \<noteq> Panics msg" .
  show ?case using rec declared_In[OF d]
    by (cases a) (auto simp add: Let_def split: exec.splits option.splits if_splits)
qed


lemma check_args_accepts:
  "\<forall>k<length args. \<exists>dt. declared (FuncOf nm ps v rs) (i + k) = Some dt \<and> accepted rt dt (args ! k) \<Longrightarrow>
   check_args rt (FuncOf nm ps v rs) (length ps) i args = (map normalize args, Returns None)"
proof (induction args arbitrary: i)
  case Nil
  then show ?case by simp
next
  case (Cons a rest)
  from Cons.prems[rule_format, of 0] obtain dt where d: "declared (FuncOf nm ps v rs) i = Some dt"
    and acc: "accepted rt dt a" by auto
  have "\<forall>k<length rest. \<exists>dt. declared (FuncOf nm ps v rs) (i + 1 + k) = Some dt \<and> accepted rt dt (rest ! k)"
  proof (intro allI impI)
    fix k assume "k < length rest"
    with Cons.prems[rule_format, of "Suc k"]
    show "\<exists>dt. declared (FuncOf nm ps v rs) (i + 1 + k) = Some dt \<and> accepted rt dt (rest ! k)" by simp
  qed
  from Cons.IH[OF this] have rec:
    "check_args rt (FuncOf nm ps v rs) (length ps) (i + 1) rest = (map normalize rest, Returns None)" .
  show ?case using rec declared_In[OF d] acc
    by (cases a) (auto simp add: accepted_def Let_def)
qed

section \<open>Task\<close>

lemma Task_FuncOf:
  assumes "err f = None" and "fv f = Value (FuncOf nm ps v rs) c"
  shows "Task rt f args =
     (if length args + 1 < length ps
      then (args, Returns (Inl (TooFewArguments (length args + 1) (length ps))))
      else if v = None \<and> length args + 1 > length ps
      then (args, Returns (Inl (TooManyArguments (length args + 1) (length ps))))
      else
        (case check_args rt (FuncOf nm ps v rs) (length ps) 1 args of
           (args', Panics m) \<Rightarrow> (args', Panics m)
         | (args', Returns (Some e)) \<Rightarrow> (args', Returns (Inl e))
         | (args', Returns None) \<Rightarrow>
             (case gob_Encode rt \<lparr>Key = key f, Args = args'\<rparr> of
                Inl e \<Rightarrow> (args', Returns (Inl (EncodeFailed e)))
              | Inr buf \<Rightarrow> (args', Returns (Inr \<lparr>Payload = buf, MinEta = None\<rparr>)))))"
  using assms by (cases v) (auto simp add: Task_def NumIn_def Let_def)

lemma Task_stored_error:
  "err f = Some e \<Longrightarrow> Task rt f args = (args, Returns (Inl e))"
  by (simp add: Task_def)

lemma Task_success:
  assumes e: "err f = None" and t: "fv f = Value (FuncOf nm ps v rs) c"
    and r: "snd (Task rt f args) = Returns (Inr task)"
  shows "arity_ok (length ps) (v \<noteq> None) (length args)
       \<and> check_args rt (FuncOf nm ps v rs) (length ps) 1 args = (map normalize args, Returns None)
       \<and> fst (Task rt f args) = map normalize args
       \<and> gob_Encode rt \<lparr>Key = key f, Args = map normalize args\<rparr> = Inr (Payload task)"
proof -
  obtain args' q where c: "check_args rt (FuncOf nm ps v rs) (length ps) 1 args = (args', q)"
    by (cases "check_args rt (FuncOf nm ps v rs) (length ps) 1 args")
  from r have ar: "arity_ok (length ps) (v \<noteq> None) (length args)"
    unfolding Task_FuncOf[OF e t] arity_ok_def by (auto split: if_splits)
  then have ar': "\<not> length args + 1 < length ps" "\<not> (v = None \<and> length args + 1 > length ps)"
    by (auto simp add: arity_ok_def split: if_splits)
  from r c have q: "q = Returns None"
    unfolding Task_FuncOf[OF e t] using ar'
    by (auto split: exec.splits option.splits sum.splits)
  from check_args_passed[OF c[unfolded q]] have a: "args' = map normalize args" .
  from r c q a ar' show ?thesis using ar
    unfolding Task_FuncOf[OF e t]
    by (auto split: sum.splits)
qed

lemma Task_dt_declared:
  "Task_dt (FuncOf nm ps v rs) (length ps) i = Returns dt \<Longrightarrow> declared (FuncOf nm ps v rs) i = Some dt"
  by (cases v) (auto simp add: Task_dt_def In_def nth_append split: if_splits)

lemma check_args_error_kind:
  "check_args rt ft m i args = (args', Returns (Some e)) \<Longrightarrow> \<exists>j. type_error_at e = Some j"
  by (drule check_args_failed) (auto split: option.splits)

lemma Task_checked:
  assumes e: "err f = None" and t: "fv f = Value (FuncOf nm ps v rs) c"
    and ar: "arity_ok (length ps) (v \<noteq> None) (length args)"
    and c: "check_args rt (FuncOf nm ps v rs) (length ps) 1 args = (args', q)"
  shows "Task rt f args =
     (case q of
        Panics m \<Rightarrow> (args', Panics m)
      | Returns None \<Rightarrow>
          (case gob_Encode rt \<lparr>Key = key f, Args = args'\<rparr> of
             Inl e \<Rightarrow> (args', Returns (Inl (EncodeFailed e)))
           | Inr buf \<Rightarrow> (args', Returns (Inr \<lparr>Payload = buf, MinEta = None\<rparr>)))
      | Returns (Some e) \<Rightarrow> (args', Returns (Inl e)))"
proof -
  from ar have ar': "\<not> length args + 1 < length ps" "\<not> (v = None \<and> length args + 1 > length ps)"
    by (auto simp add: arity_ok_def split: if_splits)
  show ?thesis unfolding Task_FuncOf[OF e t] c using ar'
    by (auto split: exec.splits option.splits)
qed

lemma Task_no_arity_error:
  assumes e: "err f = None" and t: "fv f = Value (FuncOf nm ps v rs) c"
    and ar: "arity_ok (length ps) (v \<noteq> None) (length args)"
    and r: "snd (Task rt f args) = Returns (Inl x)"
  shows "\<not> arity_error x"
proof -
  obtain args' q where c: "check_args rt (FuncOf nm ps v rs) (length ps) 1 args = (args', q)"
    by (cases "check_args rt (FuncOf nm ps v rs) (length ps) 1 args")
  note T = Task_checked[OF e t ar c]
  show ?thesis
  proof (cases q)
    case (Panics m)
    with r show ?thesis unfolding T by simp
  next
    case (Returns eo)
    show ?thesis
    proof (cases eo)
      case None
      with r Returns show ?thesis unfolding T
        by (auto split: sum.splits)
    next
      case (Some y)
      from check_args_error_kind[OF c[unfolded Returns Some]] obtain j where "type_error_at y = Some j" ..
      then have "\<not> arity_error y" by (cases y) auto
      with r Returns Some show ?thesis unfolding T by auto
    qed
  qed
qed

lemma Task_succeeds_iff:
  assumes e: "err f = None" and t: "fv f = Value (FuncOf nm ps v rs) c"
  shows "(\<exists>task. snd (Task rt f args) = Returns (Inr task)) \<longleftrightarrow>
         arity_ok (length ps) (v \<noteq> None) (length args)
         \<and> (\<forall>k<length args. \<exists>dt. declared (FuncOf nm ps v rs) (k + 1) = Some dt \<and> accepted rt dt (args ! k))
         \<and> (\<exists>b. gob_Encode rt \<lparr>Key = key f, Args = map normalize args\<rparr> = Inr b)"
    (is "?L \<longleftrightarrow> ?R")
proof
  assume ?L
  then obtain task where r: "snd (Task rt f args) = Returns (Inr task)" ..
  from Task_success[OF e t r] have ar: "arity_ok (length ps) (v \<noteq> None) (length args)"
    and c: "check_args rt (FuncOf nm ps v rs) (length ps) 1 args = (map normalize args, Returns None)"
    and g: "gob_Encode rt \<lparr>Key = key f, Args = map normalize args\<rparr> = Inr (Payload task)" by auto
  have "\<forall>k<length args. \<exists>dt. declared (FuncOf nm ps v rs) (k + 1) = Some dt \<and> accepted rt dt (args ! k)"
  proof (intro allI impI)
    fix k assume "k < length args"
    from check_args_all_pass[OF c this] obtain dt where
      "Task_dt (FuncOf nm ps v rs) (length ps) (1 + k) = Returns dt"
      "(case TypeOf (args ! k) of None \<Rightarrow> may_be_nil (Kind dt) | Some at \<Rightarrow> AssignableTo rt at dt)" by blast
    with Task_dt_declared[of nm ps v rs "1 + k" dt]
    show "\<exists>dt. declared (FuncOf nm ps v rs) (k + 1) = Some dt \<and> accepted rt dt (args ! k)"
      by (auto simp add: accepted_def)
  qed
  with ar g show ?R by blast
next
  assume R: ?R
  from R have "\<forall>k<length args. \<exists>dt. declared (FuncOf nm ps v rs) (1 + k) = Some dt \<and> accepted rt dt (args ! k)"
    by simp
  from check_args_accepts[OF this]
  have c: "check_args rt (FuncOf nm ps v rs) (length ps) 1 args = (map normalize args, Returns None)" .
  from R obtain b where "gob_Encode rt \<lparr>Key = key f, Args = map normalize args\<rparr> = Inr b" by blast
  moreover from R have ar: "arity_ok (length ps) (v \<noteq> None) (length args)" by simp
  ultimately show ?L by (simp add: Task_checked[OF e t ar c])
qed

text \<open>
  C2, as amended. The count that \<^verbatim>\<open>Function.Task\<close> requires is the number of fixed
  parameters with the context excluded; a variadic parameter does not count. For a
  function without a stored error: with fewer arguments Task fails with "too few
  arguments"; a function that is not variadic fails with "too many arguments" on more;
  on every other count Task reports no arity error and does not panic, and it succeeds
  exactly when each argument is accepted for its declared type and gob encodes the
  invocation. Task succeeds only on such a count.
\<close>

theorem Task_arity:
  assumes "err f = None" and "fv f = Value (FuncOf nm ps v rs) c"
  shows "(length args + 1 < length ps \<longrightarrow>
            snd (Task rt f args) = Returns (Inl (TooFewArguments (length args + 1) (length ps))))
       \<and> (v = None \<and> length ps < length args + 1 \<longrightarrow>
            snd (Task rt f args) = Returns (Inl (TooManyArguments (length args + 1) (length ps))))
       \<and> (arity_ok (length ps) (v \<noteq> None) (length args) \<longrightarrow>
            (\<forall>x. snd (Task rt f args) = Returns (Inl x) \<longrightarrow> \<not> arity_error x)
            \<and> (\<forall>m. snd (Task rt f args) \<noteq> Panics m)
            \<and> ((\<exists>task. snd (Task rt f args) = Returns (Inr task)) \<longleftrightarrow>
                 (\<forall>k<length args. \<exists>dt. declared (FuncOf nm ps v rs) (k + 1) = Some dt
                      \<and> accepted rt dt (args ! k))
                 \<and> (\<exists>b. gob_Encode rt \<lparr>Key = key f, Args = map normalize args\<rparr> = Inr b)))
       \<and> ((\<exists>task. snd (Task rt f args) = Returns (Inr task)) \<longrightarrow>
            arity_ok (length ps) (v \<noteq> None) (length args))"
proof (intro conjI impI allI)
  assume "length args + 1 < length ps"
  then show "snd (Task rt f args) = Returns (Inl (TooFewArguments (length args + 1) (length ps)))"
    unfolding Task_FuncOf[OF assms] by simp
next
  assume "v = None \<and> length ps < length args + 1"
  then show "snd (Task rt f args) = Returns (Inl (TooManyArguments (length args + 1) (length ps)))"
    unfolding Task_FuncOf[OF assms] by simp
next
  fix x
  assume "arity_ok (length ps) (v \<noteq> None) (length args)" "snd (Task rt f args) = Returns (Inl x)"
  then show "\<not> arity_error x" by (rule Task_no_arity_error[OF assms])
next
  fix m
  assume ar: "arity_ok (length ps) (v \<noteq> None) (length args)"
  then have ar': "\<not> length args + 1 < length ps" "\<not> (v = None \<and> length args + 1 > length ps)"
    by (auto simp add: arity_ok_def split: if_splits)
  from ar have "v = None \<longrightarrow> 1 + length args \<le> length ps"
    by (auto simp add: arity_ok_def split: if_splits)
  note np = check_args_no_panic[OF this, of rt nm rs]
  obtain args' q where c: "check_args rt (FuncOf nm ps v rs) (length ps) 1 args = (args', q)"
    by (cases "check_args rt (FuncOf nm ps v rs) (length ps) 1 args")
  from np c have "\<And>m. q \<noteq> Panics m" by simp
  then show "snd (Task rt f args) \<noteq> Panics m"
    unfolding Task_checked[OF assms ar c]
    by (auto split: exec.splits option.splits sum.splits)
next
  assume "arity_ok (length ps) (v \<noteq> None) (length args)"
  show "(\<exists>task. snd (Task rt f args) = Returns (Inr task)) \<longleftrightarrow>
                 (\<forall>k<length args. \<exists>dt. declared (FuncOf nm ps v rs) (k + 1) = Some dt
                      \<and> accepted rt dt (args ! k))
                 \<and> (\<exists>b. gob_Encode rt \<lparr>Key = key f, Args = map normalize args\<rparr> = Inr b)"
    using Task_succeeds_iff[OF assms, of rt args] \<open>arity_ok (length ps) (v \<noteq> None) (length args)\<close>
    by blast
next
  assume "\<exists>task. snd (Task rt f args) = Returns (Inr task)"
  then show "arity_ok (length ps) (v \<noteq> None) (length args)"
    using Task_succeeds_iff[OF assms, of rt args] by blast
qed

lemmas demo_defs = demo_rt_def book_runtime_def demo_book_def int_handler_def rest_handler_def
  variadic_handler_def failing_handler_def handlerT_def restT_def variadicT_def intT_def
  stringT_def ptrT_def contextType_def errorType_def timerCtxT_def demo_state_def demo_task_def
  demo_regs_def world0_def once_state_def twice_state_def mixed_regs_def mixed_state_def
  demo_queue_def shadow_regs_def shadow_state_def

theorem Task_arity_witness:
  "err int_handler = None
   \<and> fv int_handler = Value (FuncOf [] [contextType, intT] None [errorType]) (Some 1)
   \<and> snd (Task demo_rt int_handler []) = Returns (Inl (TooFewArguments 1 2))
   \<and> snd (Task demo_rt int_handler [Iface intT (Some 5), Iface intT (Some 6)])
       = Returns (Inl (TooManyArguments 3 2))
   \<and> arity_ok 2 False 1
   \<and> (\<exists>task. snd (Task demo_rt int_handler [Iface intT (Some 5)]) = Returns (Inr task))"
proof -
  have e: "err int_handler = None" by (simp add: int_handler_def)
  have t: "fv int_handler = Value (FuncOf [] [contextType, intT] None [errorType]) (Some 1)"
    by (simp add: int_handler_def handlerT_def)
  have ok: "arity_ok 2 False 1" by (simp add: arity_ok_def)
  have acc: "accepted demo_rt intT (Iface intT (Some 5))"
    by (simp add: accepted_def demo_defs)
  have enc: "gob_Encode demo_rt \<lparr>Key = key int_handler, Args = map normalize [Iface intT (Some 5)]\<rparr> = Inr [2]"
    by (simp add: demo_defs)
  from Task_arity[OF e t, of "[]" demo_rt]
  have few: "snd (Task demo_rt int_handler []) = Returns (Inl (TooFewArguments 1 2))" by simp
  from Task_arity[OF e t, of "[Iface intT (Some 5), Iface intT (Some 6)]" demo_rt]
  have many: "snd (Task demo_rt int_handler [Iface intT (Some 5), Iface intT (Some 6)])
       = Returns (Inl (TooManyArguments 3 2))" by simp
  from Task_arity[OF e t, of "[Iface intT (Some 5)]" demo_rt] ok acc enc
  have "\<exists>task. snd (Task demo_rt int_handler [Iface intT (Some 5)]) = Returns (Inr task)"
    by (simp add: arity_ok_def)
  with e t few many ok show ?thesis by blast
qed

text \<open>
  C2 as stated fails twice. \<^verbatim>\<open>func(ctx, rest ...int)\<close> declares two parameters, so the
  claim has Task fail on fewer than one argument; Task succeeds on none. And
  \<^verbatim>\<open>func(ctx, n int) error\<close> called with one argument, a string, has the matching
  count and fails.
\<close>

theorem Task_arity_counterexample:
  "NumIn restT = Returns 2
   \<and> IsVariadic restT = Returns True
   \<and> length ([] :: nat any list) < 2 - 1
   \<and> snd (Task demo_rt rest_handler []) = Returns (Inr \<lparr>Payload = [1], MinEta = None\<rparr>)
   \<and> NumIn handlerT = Returns 2
   \<and> IsVariadic handlerT = Returns False
   \<and> length [Iface stringT (Some (7::nat))] = 2 - 1
   \<and> snd (Task demo_rt int_handler [Iface stringT (Some 7)])
       = Returns (Inl (NotAssignable 1 stringT intT))"
  by (simp add: demo_defs Task_def NumIn_def Task_dt_def In_def)

text \<open>
  C8 at the nil interface. \<^verbatim>\<open>reflect.ValueOf(nil)\<close> is the zero Value, and
  \<^verbatim>\<open>f.fv.Type()\<close> panics on it: \<^verbatim>\<open>Func(key, nil)\<close> fails at once and returns no
  Function, in every state.
\<close>

theorem Func_nil_panics:
  "Func file k NilInterface s = Panics ''reflect: call of reflect.Value.Type on zero Value''"
  by (simp add: Func_def)

lemma check_args_failed_declared:
  assumes "check_args rt (FuncOf nm ps v rs) (length ps) 1 args = (args', Returns (Some x))"
  shows "\<exists>k dt. k < length args
     \<and> args' = map normalize (take (Suc k) args) @ drop (Suc k) args
     \<and> declared (FuncOf nm ps v rs) (k + 1) = Some dt
     \<and> \<not> accepted rt dt (args ! k)
     \<and> x = (case TypeOf (args ! k) of None \<Rightarrow> NotNilable (k + 1) dt | Some at \<Rightarrow> NotAssignable (k + 1) at dt)
     \<and> (\<forall>l<k. \<exists>dt'. declared (FuncOf nm ps v rs) (l + 1) = Some dt' \<and> accepted rt dt' (args ! l))"
proof -
  from check_args_failed[OF assms] obtain k dt where
    k: "k < length args" and a: "args' = map normalize (take (Suc k) args) @ drop (Suc k) args"
    and dt: "Task_dt (FuncOf nm ps v rs) (length ps) (1 + k) = Returns dt"
    and bad: "(case TypeOf (args ! k) of
           None \<Rightarrow> x = NotNilable (1 + k) dt \<and> \<not> may_be_nil (Kind dt)
         | Some at \<Rightarrow> x = NotAssignable (1 + k) at dt \<and> \<not> AssignableTo rt at dt)"
    and before: "\<forall>j<k. \<exists>dt'. Task_dt (FuncOf nm ps v rs) (length ps) (1 + j) = Returns dt'
           \<and> (case TypeOf (args ! j) of None \<Rightarrow> may_be_nil (Kind dt') | Some at \<Rightarrow> AssignableTo rt at dt')"
    by blast
  from Task_dt_declared[OF dt] have d: "declared (FuncOf nm ps v rs) (k + 1) = Some dt" by simp
  from bad have na: "\<not> accepted rt dt (args ! k)"
    and x: "x = (case TypeOf (args ! k) of None \<Rightarrow> NotNilable (k + 1) dt | Some at \<Rightarrow> NotAssignable (k + 1) at dt)"
    by (auto simp add: accepted_def split: option.splits)
  have "\<forall>l<k. \<exists>dt'. declared (FuncOf nm ps v rs) (l + 1) = Some dt' \<and> accepted rt dt' (args ! l)"
  proof (intro allI impI)
    fix l assume "l < k"
    with before obtain dt' where 1: "Task_dt (FuncOf nm ps v rs) (length ps) (1 + l) = Returns dt'"
      and 2: "(case TypeOf (args ! l) of None \<Rightarrow> may_be_nil (Kind dt') | Some at \<Rightarrow> AssignableTo rt at dt')"
      by blast
    from Task_dt_declared[OF 1] 2
    show "\<exists>dt'. declared (FuncOf nm ps v rs) (l + 1) = Some dt' \<and> accepted rt dt' (args ! l)"
      by (auto simp add: accepted_def)
  qed
  with k a d na x show ?thesis by blast
qed

text \<open>The three ways \<^verbatim>\<open>Function.Task\<close> ends once the arity tests have passed.\<close>

lemma Task_outcome:
  assumes e: "err f = None" and t: "fv f = Value (FuncOf nm ps v rs) c"
    and ar: "arity_ok (length ps) (v \<noteq> None) (length args)"
  shows "(\<exists>buf. Task rt f args = (map normalize args, Returns (Inr \<lparr>Payload = buf, MinEta = None\<rparr>))
            \<and> gob_Encode rt \<lparr>Key = key f, Args = map normalize args\<rparr> = Inr buf
            \<and> (\<forall>l<length args. \<exists>dt'. declared (FuncOf nm ps v rs) (l + 1) = Some dt' \<and> accepted rt dt' (args ! l)))
       \<or> (\<exists>msg. Task rt f args = (map normalize args, Returns (Inl (EncodeFailed msg)))
            \<and> (\<forall>l<length args. \<exists>dt'. declared (FuncOf nm ps v rs) (l + 1) = Some dt' \<and> accepted rt dt' (args ! l)))
       \<or> (\<exists>k dt. k < length args
            \<and> declared (FuncOf nm ps v rs) (k + 1) = Some dt
            \<and> \<not> accepted rt dt (args ! k)
            \<and> (\<forall>l<k. \<exists>dt'. declared (FuncOf nm ps v rs) (l + 1) = Some dt' \<and> accepted rt dt' (args ! l))
            \<and> Task rt f args =
                (map normalize (take (Suc k) args) @ drop (Suc k) args,
                 Returns (Inl (case TypeOf (args ! k) of
                                 None \<Rightarrow> NotNilable (k + 1) dt
                               | Some at \<Rightarrow> NotAssignable (k + 1) at dt))))"
proof -
  obtain args' q where c: "check_args rt (FuncOf nm ps v rs) (length ps) 1 args = (args', q)"
    by (cases "check_args rt (FuncOf nm ps v rs) (length ps) 1 args")
  note T = Task_checked[OF e t ar c]
  from ar have "v = None \<longrightarrow> 1 + length args \<le> length ps"
    by (auto simp add: arity_ok_def split: if_splits)
  from check_args_no_panic[OF this, of rt nm rs] c have np: "\<And>m. q \<noteq> Panics m" by simp
  show ?thesis
  proof (cases q)
    case (Panics m)
    with np[of m] show ?thesis by blast
  next
    case (Returns eo)
    show ?thesis
    proof (cases eo)
      case None
      from check_args_passed[OF c[unfolded Returns None]] have a: "args' = map normalize args" .
      have all: "\<forall>l<length args. \<exists>dt'. declared (FuncOf nm ps v rs) (l + 1) = Some dt' \<and> accepted rt dt' (args ! l)"
      proof (intro allI impI)
        fix l assume "l < length args"
        from check_args_all_pass[OF c[unfolded Returns None] this] obtain dt where
          1: "Task_dt (FuncOf nm ps v rs) (length ps) (1 + l) = Returns dt"
          and 2: "(case TypeOf (args ! l) of None \<Rightarrow> may_be_nil (Kind dt) | Some at \<Rightarrow> AssignableTo rt at dt)"
          by blast
        from Task_dt_declared[OF 1] 2
        show "\<exists>dt'. declared (FuncOf nm ps v rs) (l + 1) = Some dt' \<and> accepted rt dt' (args ! l)"
          by (auto simp add: accepted_def)
      qed
      show ?thesis
      proof (cases "gob_Encode rt \<lparr>Key = key f, Args = map normalize args\<rparr>")
        case (Inl msg)
        with T Returns None a all show ?thesis by (simp del: declared.simps)
      next
        case (Inr buf)
        with T Returns None a all show ?thesis by (simp del: declared.simps)
      qed
    next
      case (Some x)
      from check_args_failed_declared[OF c[unfolded Returns Some]] obtain k dt where
        "k < length args" "args' = map normalize (take (Suc k) args) @ drop (Suc k) args"
        "declared (FuncOf nm ps v rs) (k + 1) = Some dt" "\<not> accepted rt dt (args ! k)"
        "x = (case TypeOf (args ! k) of None \<Rightarrow> NotNilable (k + 1) dt | Some at \<Rightarrow> NotAssignable (k + 1) at dt)"
        "\<forall>l<k. \<exists>dt'. declared (FuncOf nm ps v rs) (l + 1) = Some dt' \<and> accepted rt dt' (args ! l)"
        by blast
      moreover from T Returns Some have "Task rt f args = (args', Returns (Inl x))" by simp
      ultimately show ?thesis by blast
    qed
  qed
qed

lemma may_be_nil_iff:
  "may_be_nil k \<longleftrightarrow> k \<in> {Chan, Func_kind, Interface, Map_kind, Ptr, Slice}"
  by (cases k) auto

lemma declared_in_range:
  assumes "arity_ok (length ps) (v \<noteq> None) n" and "i < n"
  shows "\<exists>dt. declared (FuncOf nm ps v rs) (i + 1) = Some dt"
  using assms by (cases v) (auto simp add: arity_ok_def)

text \<open>
  C4. Let a handler without a stored error be called with an accepted number of
  arguments, the one at index \<open>i\<close> the nil interface, and let \<open>dt\<close> be the type declared
  for that position. The kinds that may be nil are chan, func, interface, map, pointer
  and slice. If the kind of \<open>dt\<close> is one of them, Task reports no type error for that
  argument, and it succeeds whenever the other arguments are accepted and gob encodes the
  invocation. If it is not, Task returns a type error and no payload: the error names
  that argument or an earlier one, and it is "not nilable" for that argument when the
  earlier ones are accepted.
\<close>

theorem Task_nil_argument:
  assumes "err f = None" and "fv f = Value (FuncOf nm ps v rs) c"
    and "arity_ok (length ps) (v \<noteq> None) (length args)"
    and "i < length args" and "args ! i = NilInterface"
  shows "\<exists>dt. declared (FuncOf nm ps v rs) (i + 1) = Some dt
     \<and> (may_be_nil (Kind dt) \<longleftrightarrow> Kind dt \<in> {Chan, Func_kind, Interface, Map_kind, Ptr, Slice})
     \<and> (may_be_nil (Kind dt) \<longrightarrow>
          (\<forall>x. snd (Task rt f args) = Returns (Inl x) \<longrightarrow> type_error_at x \<noteq> Some (i + 1))
          \<and> ((\<forall>k<length args. k \<noteq> i \<longrightarrow>
                 (\<exists>dt'. declared (FuncOf nm ps v rs) (k + 1) = Some dt' \<and> accepted rt dt' (args ! k)))
              \<and> (\<exists>b. gob_Encode rt \<lparr>Key = key f, Args = map normalize args\<rparr> = Inr b)
              \<longrightarrow> (\<exists>task. snd (Task rt f args) = Returns (Inr task))))
     \<and> (\<not> may_be_nil (Kind dt) \<longrightarrow>
          (\<exists>x j. snd (Task rt f args) = Returns (Inl x) \<and> type_error_at x = Some j \<and> j \<le> i + 1)
          \<and> ((\<forall>k<i. \<exists>dt'. declared (FuncOf nm ps v rs) (k + 1) = Some dt' \<and> accepted rt dt' (args ! k))
              \<longrightarrow> snd (Task rt f args) = Returns (Inl (NotNilable (i + 1) dt))))"
proof -
  from declared_in_range[OF assms(3,4)] obtain dt where
    d: "declared (FuncOf nm ps v rs) (i + 1) = Some dt" by blast
  have acc_i: "accepted rt dt (args ! i) \<longleftrightarrow> may_be_nil (Kind dt)"
    using assms(5) by (simp add: accepted_def)
  note O = Task_outcome[OF assms(1-3), of rt]
  have nil_ok: "\<forall>x. snd (Task rt f args) = Returns (Inl x) \<longrightarrow> type_error_at x \<noteq> Some (i + 1)"
    if n: "may_be_nil (Kind dt)"
  proof (intro allI impI)
    fix x assume r: "snd (Task rt f args) = Returns (Inl x)"
    from O show "type_error_at x \<noteq> Some (i + 1)"
    proof (elim disjE exE conjE)
      fix buf assume "Task rt f args = (map normalize args, Returns (Inr \<lparr>Payload = buf, MinEta = None\<rparr>))"
      with r show ?thesis by simp
    next
      fix msg assume "Task rt f args = (map normalize args, Returns (Inl (EncodeFailed msg)))"
      with r show ?thesis by auto
    next
      fix k dt'
      assume k: "k < length args" and dk: "declared (FuncOf nm ps v rs) (k + 1) = Some dt'"
        and na: "\<not> accepted rt dt' (args ! k)"
        and T: "Task rt f args =
                (map normalize (take (Suc k) args) @ drop (Suc k) args,
                 Returns (Inl (case TypeOf (args ! k) of
                                 None \<Rightarrow> NotNilable (k + 1) dt'
                               | Some at \<Rightarrow> NotAssignable (k + 1) at dt')))"
      have "k \<noteq> i" using na dk d acc_i n by auto
      with T r show ?thesis by (auto split: option.splits)
    qed
  qed
  have nil_succeeds: "\<exists>task. snd (Task rt f args) = Returns (Inr task)"
    if n: "may_be_nil (Kind dt)"
      and others: "\<forall>k<length args. k \<noteq> i \<longrightarrow>
                 (\<exists>dt'. declared (FuncOf nm ps v rs) (k + 1) = Some dt' \<and> accepted rt dt' (args ! k))"
      and enc: "\<exists>b. gob_Encode rt \<lparr>Key = key f, Args = map normalize args\<rparr> = Inr b"
  proof -
    have "\<forall>k<length args. \<exists>dt'. declared (FuncOf nm ps v rs) (k + 1) = Some dt' \<and> accepted rt dt' (args ! k)"
    proof (intro allI impI)
      fix k assume "k < length args"
      with others d acc_i n
      show "\<exists>dt'. declared (FuncOf nm ps v rs) (k + 1) = Some dt' \<and> accepted rt dt' (args ! k)"
        by (cases "k = i") auto
    qed
    with Task_succeeds_iff[OF assms(1,2), of rt args] assms(3) enc show ?thesis by blast
  qed
  have bad: "\<exists>x j. snd (Task rt f args) = Returns (Inl x) \<and> type_error_at x = Some j \<and> j \<le> i + 1"
    and first: "(\<forall>k<i. \<exists>dt'. declared (FuncOf nm ps v rs) (k + 1) = Some dt' \<and> accepted rt dt' (args ! k))
              \<longrightarrow> snd (Task rt f args) = Returns (Inl (NotNilable (i + 1) dt))"
    if n: "\<not> may_be_nil (Kind dt)"
  proof -
    from n acc_i have na_i: "\<not> accepted rt dt (args ! i)" by simp
    from O d na_i assms(4) obtain k dt' where
      k: "k < length args" and dk: "declared (FuncOf nm ps v rs) (k + 1) = Some dt'"
      and na: "\<not> accepted rt dt' (args ! k)"
      and before: "\<forall>l<k. \<exists>dt''. declared (FuncOf nm ps v rs) (l + 1) = Some dt'' \<and> accepted rt dt'' (args ! l)"
      and T: "Task rt f args =
                (map normalize (take (Suc k) args) @ drop (Suc k) args,
                 Returns (Inl (case TypeOf (args ! k) of
                                 None \<Rightarrow> NotNilable (k + 1) dt'
                               | Some at \<Rightarrow> NotAssignable (k + 1) at dt')))"
      by (elim disjE exE conjE) (metis option.inject)+
    have ki: "k \<le> i"
    proof (rule ccontr)
      assume "\<not> k \<le> i"
      then have "i < k" by simp
      with before d na_i show False by auto
    qed
    with T show "\<exists>x j. snd (Task rt f args) = Returns (Inl x) \<and> type_error_at x = Some j \<and> j \<le> i + 1"
      by (cases "TypeOf (args ! k)") auto
    show "(\<forall>k<i. \<exists>dt'. declared (FuncOf nm ps v rs) (k + 1) = Some dt' \<and> accepted rt dt' (args ! k))
              \<longrightarrow> snd (Task rt f args) = Returns (Inl (NotNilable (i + 1) dt))"
    proof
      assume a: "\<forall>k<i. \<exists>dt'. declared (FuncOf nm ps v rs) (k + 1) = Some dt' \<and> accepted rt dt' (args ! k)"
      have "k = i"
      proof (rule ccontr)
        assume "k \<noteq> i"
        with ki have "k < i" by simp
        with a dk na show False by auto
      qed
      with T dk d assms(5) show "snd (Task rt f args) = Returns (Inl (NotNilable (i + 1) dt))" by simp
    qed
  qed
  from d nil_ok nil_succeeds bad first may_be_nil_iff[of "Kind dt"] show ?thesis
    by (intro exI[of _ dt]) blast
qed

theorem Task_nil_argument_witness:
  "err variadic_handler = None
   \<and> fv variadic_handler = Value (FuncOf [] [contextType, intT] (Some ptrT) [errorType]) (Some 1)
   \<and> arity_ok 2 True 3
   \<and> (\<exists>task. snd (Task demo_rt variadic_handler [Iface intT (Some 7), NilInterface, Iface ptrT (Some 3)])
         = Returns (Inr task))
   \<and> snd (Task demo_rt variadic_handler [NilInterface]) = Returns (Inl (NotNilable 1 intT))"
proof -
  have e: "err variadic_handler = None" by (simp add: variadic_handler_def)
  have t: "fv variadic_handler = Value (FuncOf [] [contextType, intT] (Some ptrT) [errorType]) (Some 1)"
    by (simp add: variadic_handler_def variadicT_def)
  have ar3: "arity_ok (length [contextType, intT]) (Some ptrT \<noteq> None)
               (length [Iface intT (Some 7), NilInterface, Iface ptrT (Some (3::nat))])"
    by (simp add: arity_ok_def)
  have ar1: "arity_ok (length [contextType, intT]) (Some ptrT \<noteq> None) (length [NilInterface :: nat any])"
    by (simp add: arity_ok_def)
  have enc: "gob_Encode demo_rt \<lparr>Key = key variadic_handler,
               Args = map normalize [Iface intT (Some 7), NilInterface, Iface ptrT (Some 3)]\<rparr> = Inr [4]"
    by (simp add: demo_defs)
  have acc: "accepted demo_rt intT (Iface intT (Some 7))" "accepted demo_rt ptrT (Iface ptrT (Some 3))"
    by (simp_all add: accepted_def demo_defs)
  from Task_nil_argument[OF e t ar3, of 1 demo_rt] enc acc
  have ok: "\<exists>task. snd (Task demo_rt variadic_handler [Iface intT (Some 7), NilInterface, Iface ptrT (Some 3)])
         = Returns (Inr task)"
    by (simp add: ptrT_def All_less_Suc)
  from Task_nil_argument[OF e t ar1, of 0 demo_rt]
  have bad: "snd (Task demo_rt variadic_handler [NilInterface]) = Returns (Inl (NotNilable 1 intT))"
    by (simp add: intT_def)
  have "arity_ok 2 True 3" by (simp add: arity_ok_def)
  with e t ok bad show ?thesis by blast
qed

text \<open>
  C10. Let a handler without a stored error be called with an accepted number of
  arguments, the one at index \<open>i\<close> a nil chan, func, map, pointer or slice boxed in an
  interface, and let every earlier argument be accepted, so that validation reaches
  index \<open>i\<close>. Then, whatever Task returns (also an error for that argument or a later
  one), the caller's slice keeps its length and holds the nil interface at index \<open>i\<close>;
  each of its elements is the original one or the nil interface that replaces a boxed
  nil.
\<close>

theorem Task_overwrites_boxed_nil:
  assumes "err f = None" and "fv f = Value (FuncOf nm ps v rs) c"
    and "arity_ok (length ps) (v \<noteq> None) (length args)"
    and "i < length args" and "args ! i = Iface t None" and "may_be_nil (Kind t)"
    and "\<forall>k<i. \<exists>dt. declared (FuncOf nm ps v rs) (k + 1) = Some dt \<and> accepted rt dt (args ! k)"
  shows "length (fst (Task rt f args)) = length args
       \<and> fst (Task rt f args) ! i = NilInterface
       \<and> (\<forall>k<length args. fst (Task rt f args) ! k = args ! k
                         \<or> fst (Task rt f args) ! k = normalize (args ! k))"
proof -
  have ni: "normalize (args ! i) = NilInterface" using assms(5,6) by simp
  from Task_outcome[OF assms(1-3), of rt]
  consider (all) "fst (Task rt f args) = map normalize args"
    | (stopped) k dt where "k < length args" "declared (FuncOf nm ps v rs) (k + 1) = Some dt"
        "\<not> accepted rt dt (args ! k)"
        "fst (Task rt f args) = map normalize (take (Suc k) args) @ drop (Suc k) args"
    by (elim disjE exE conjE) (simp, simp, metis fst_conv)
  then show ?thesis
  proof cases
    case all
    with ni assms(4) show ?thesis by simp
  next
    case (stopped k dt)
    have ik: "i \<le> k"
    proof (rule ccontr)
      assume "\<not> i \<le> k"
      then have "k < i" by simp
      with assms(7) stopped(2,3) show False by auto
    qed
    have len: "length (fst (Task rt f args)) = length args"
      using stopped(1,4) by simp
    have at_i: "fst (Task rt f args) ! i = NilInterface"
      using stopped(1,4) ik ni by (simp add: nth_append)
    have frame: "\<forall>j<length args. fst (Task rt f args) ! j = args ! j
                         \<or> fst (Task rt f args) ! j = normalize (args ! j)"
      using stopped(1,4) by (auto simp add: nth_append)
    from len at_i frame show ?thesis by blast
  qed
qed

section \<open>Dispatch\<close>

lemma handleTask_at_declared:
  "handleTask_at (FuncOf nm ps v rs) n = Returns t \<longleftrightarrow> declared (FuncOf nm ps v rs) n = Some t"
  by (cases v) (auto simp add: handleTask_at_def In_def NumIn_def nth_append)

lemma handleTask_at_panics:
  "declared (FuncOf nm ps v rs) n = None \<Longrightarrow> \<exists>m. handleTask_at (FuncOf nm ps v rs) n = Panics m"
  by (cases "handleTask_at (FuncOf nm ps v rs) n") (auto simp add: handleTask_at_declared)

lemma length_delivered [simp]: "length (delivered ft n as) = length as"
  by (induction as arbitrary: n) auto

lemma delivered_nth:
  "k < length as \<Longrightarrow>
   delivered ft n as ! k =
     (case as ! k of
        Iface t c \<Rightarrow> Value t c
      | NilInterface \<Rightarrow> (case declared ft (n + k) of Some t \<Rightarrow> Zero t | None \<Rightarrow> ZeroValue))"
proof (induction as arbitrary: n k)
  case Nil
  then show ?case by simp
next
  case (Cons a rest)
  show ?case
  proof (cases k)
    case 0
    then show ?thesis by (cases a) simp_all
  next
    case (Suc k')
    with Cons.prems have "k' < length rest" by simp
    from Cons.IH[OF this, of "n + 1"] Suc show ?thesis by (simp split: any.splits)
  qed
qed

lemma build_in_returns:
  "(\<forall>k<length as. as ! k = NilInterface \<longrightarrow> declared (FuncOf nm ps v rs) (length inp + k) \<noteq> None) \<Longrightarrow>
   build_in (FuncOf nm ps v rs) as inp = Returns (inp @ delivered (FuncOf nm ps v rs) (length inp) as)"
proof (induction as arbitrary: inp)
  case Nil
  then show ?case by simp
next
  case (Cons a rest)
  have step: "\<forall>k<length rest. rest ! k = NilInterface \<longrightarrow>
                 declared (FuncOf nm ps v rs) (length (inp @ [x]) + k) \<noteq> None" for x :: "'a Value"
  proof (intro allI impI)
    fix k assume "k < length rest" "rest ! k = NilInterface"
    with Cons.prems[rule_format, of "Suc k"]
    show "declared (FuncOf nm ps v rs) (length (inp @ [x]) + k) \<noteq> None" by simp
  qed
  show ?case
  proof (cases a)
    case NilInterface
    with Cons.prems[rule_format, of 0] obtain t where d: "declared (FuncOf nm ps v rs) (length inp) = Some t"
      by auto
    then have h: "handleTask_at (FuncOf nm ps v rs) (length inp) = Returns t"
      by (simp only: handleTask_at_declared)
    from Cons.IH[OF step, of "Zero t"] NilInterface d h show ?thesis
      by (simp del: declared.simps)
  next
    case (Iface t c)
    from Cons.IH[OF step, of "Value t c"] Iface show ?thesis
      by (simp del: declared.simps)
  qed
qed

lemma build_in_returned:
  "build_in (FuncOf nm ps v rs) as inp = Returns out \<Longrightarrow>
   out = inp @ delivered (FuncOf nm ps v rs) (length inp) as
   \<and> (\<forall>k<length as. as ! k = NilInterface \<longrightarrow> declared (FuncOf nm ps v rs) (length inp + k) \<noteq> None)"
proof (induction as arbitrary: inp)
  case Nil
  then show ?case by simp
next
  case (Cons a rest)
  show ?case
  proof (cases a)
    case NilInterface
    with Cons.prems obtain t where h: "handleTask_at (FuncOf nm ps v rs) (length inp) = Returns t"
      and r: "build_in (FuncOf nm ps v rs) rest (inp @ [Zero t]) = Returns out"
      by (auto split: exec.splits)
    from h have d: "declared (FuncOf nm ps v rs) (length inp) = Some t"
      by (simp only: handleTask_at_declared)
    from Cons.IH[OF r] have o: "out = (inp @ [Zero t]) @ delivered (FuncOf nm ps v rs) (length (inp @ [Zero t])) rest"
      and rest: "\<forall>k<length rest. rest ! k = NilInterface \<longrightarrow>
                   declared (FuncOf nm ps v rs) (length (inp @ [Zero t]) + k) \<noteq> None"
      by blast+
    have "\<forall>k<length (a # rest). (a # rest) ! k = NilInterface \<longrightarrow>
             declared (FuncOf nm ps v rs) (length inp + k) \<noteq> None"
    proof (intro allI impI)
      fix k assume k: "k < length (a # rest)" and n: "(a # rest) ! k = NilInterface"
      show "declared (FuncOf nm ps v rs) (length inp + k) \<noteq> None"
      proof (cases k)
        case 0
        with d show ?thesis by (simp del: declared.simps)
      next
        case (Suc k')
        with k n rest[rule_format, of k'] show ?thesis by (simp del: declared.simps)
      qed
    qed
    with o d NilInterface show ?thesis by (simp del: declared.simps)
  next
    case (Iface t c)
    with Cons.prems have r: "build_in (FuncOf nm ps v rs) rest (inp @ [Value t c]) = Returns out"
      by simp
    from Cons.IH[OF r] have o: "out = (inp @ [Value t c]) @ delivered (FuncOf nm ps v rs) (length (inp @ [Value t c])) rest"
      and rest: "\<forall>k<length rest. rest ! k = NilInterface \<longrightarrow>
                   declared (FuncOf nm ps v rs) (length (inp @ [Value t c]) + k) \<noteq> None"
      by blast+
    have "\<forall>k<length (a # rest). (a # rest) ! k = NilInterface \<longrightarrow>
             declared (FuncOf nm ps v rs) (length inp + k) \<noteq> None"
    proof (intro allI impI)
      fix k assume k: "k < length (a # rest)" and n: "(a # rest) ! k = NilInterface"
      show "declared (FuncOf nm ps v rs) (length inp + k) \<noteq> None"
      proof (cases k)
        case 0
        with n Iface show ?thesis by simp
      next
        case (Suc k')
        with k n rest[rule_format, of k'] show ?thesis by (simp del: declared.simps)
      qed
    qed
    with o Iface show ?thesis by (simp del: declared.simps)
  qed
qed


lemma handleTask_dispatch:
  assumes "gob_Decode rt (task_Payload task) = Inr invoc"
    and "funcs s (Key invoc) = Some p"
    and "fv (heap s ! p) = Value ft c"
    and "build_in ft (Args invoc) [ValueOf (WithTimeout rt ctx 30)] = Returns inp"
  shows "handleTask rt s ctx task w =
           (case Value_Call rt (Value ft c) inp w of
              (w', Panics m) \<Rightarrow> (w', Panics m)
            | (w', Returns out) \<Rightarrow> (w', handler_error ft out))"
  using assms by (simp add: handleTask_def Let_def)

lemma handler_error_results:
  "handler_error (FuncOf nm ps v rs) (map (\<lambda>j. Value (rs ! j) (res j)) [0..<length rs]) =
     Returns (if rs \<noteq> [] \<and> last rs = errorType \<and> res (length rs - 1) \<noteq> None
              then Some (HandlerFailed (res (length rs - 1))) else None)"
proof (cases "rs = []")
  case True
  then show ?thesis by (simp add: handler_error_def NumOut_def)
next
  case False
  then have n: "0 < length rs" by simp
  have l: "rs ! (length rs - 1) = last rs" using False by (simp add: last_conv_nth)
  have k: "Kind errorType = Interface" by (simp add: errorType_def)
  show ?thesis using n l k False
    by (auto simp add: handler_error_def NumOut_def Out_def)
qed

lemma Value_Call_returned:
  assumes "Value_Call rt (Value (FuncOf nm ps v rs) c) inp w = (w', Returns out)"
  shows "\<exists>d res. c = Some d \<and> body rt d inp = Some res
           \<and> out = map (\<lambda>j. Value (rs ! j) (res j)) [0..<length rs]
           \<and> w' = w\<lparr>calls := calls w @ [(Value (FuncOf nm ps v rs) c, inp)]\<rparr>"
  using assms
  by (cases c; cases v) (auto simp add: Value_Call_def Let_def split: if_splits option.splits)

text \<open>
  C7. Let \<^verbatim>\<open>handleTask\<close> decode an invocation, find its function, build the argument
  vector and call the handler, and let the handler return the values \<open>out\<close>, one for
  each declared result. Then \<^verbatim>\<open>handleTask\<close> returns "handler failed" exactly when the
  last declared result type is \<^verbatim>\<open>error\<close> and the last value is not nil, and returns no
  error otherwise: no other returned value has a part in its result.
\<close>

theorem handleTask_handler_result:
  assumes "gob_Decode rt (task_Payload task) = Inr invoc"
    and "funcs s (Key invoc) = Some p"
    and "fv (heap s ! p) = Value (FuncOf nm ps v rs) c"
    and "build_in (FuncOf nm ps v rs) (Args invoc) [ValueOf (WithTimeout rt ctx 30)] = Returns inp"
    and "Value_Call rt (Value (FuncOf nm ps v rs) c) inp w = (w', Returns out)"
  shows "length out = length rs
       \<and> snd (handleTask rt s ctx task w) =
           Returns (if rs \<noteq> [] \<and> last rs = errorType \<and> content (last out) \<noteq> None
                    then Some (HandlerFailed (content (last out))) else None)"
proof -
  from Value_Call_returned[OF assms(5)] obtain d res where
    out: "out = map (\<lambda>j. Value (rs ! j) (res j)) [0..<length rs]" by blast
  have len: "length out = length rs" using out by simp
  have lst: "content (last out) = res (length rs - 1)" if "rs \<noteq> []"
    using that out by (simp add: last_conv_nth)
  have "snd (handleTask rt s ctx task w) = handler_error (FuncOf nm ps v rs) out"
    unfolding handleTask_dispatch[OF assms(1-4)] assms(5) by simp
  also have "\<dots> = Returns (if rs \<noteq> [] \<and> last rs = errorType \<and> res (length rs - 1) \<noteq> None
              then Some (HandlerFailed (res (length rs - 1))) else None)"
    unfolding out by (rule handler_error_results)
  finally have r: "snd (handleTask rt s ctx task w) =
      Returns (if rs \<noteq> [] \<and> last rs = errorType \<and> res (length rs - 1) \<noteq> None
              then Some (HandlerFailed (res (length rs - 1))) else None)" .
  show ?thesis
  proof (cases "rs = []")
    case True
    with r len show ?thesis by simp
  next
    case False
    with r len lst[OF False] show ?thesis by simp
  qed
qed


lemma normalize_cases: "normalize a = NilInterface \<or> normalize a = a"
  by (cases a) auto

text \<open>
  C5. For a function object of the heap, of type \<open>FuncOf nm ps v rs\<close>.

  Encoding: when Task succeeds, the invocation that gob encoded, and the caller's slice,
  hold the arguments with every nil chan, func, map, pointer or slice that was boxed in an
  interface replaced by the nil interface.

  Decoding: let the payload decode to an invocation whose key leads to the object, and
  let every nil argument stand at a position that has a declared type (any position when
  the function is variadic). Then \<^verbatim>\<open>handleTask\<close> builds a vector and calls the function
  value on it; the vector has the context at index 0 and one value for each argument: for
  a nil argument the zero value of the parameter type at its position, or of the
  variadic element type beyond the fixed parameters, and any other argument as it is.
\<close>

theorem typed_nil_round_trip:
  assumes "fv (heap s ! p) = Value (FuncOf nm ps v rs) c"
  shows "(err (heap s ! p) = None \<longrightarrow>
           (\<forall>task. snd (Task rt (heap s ! p) args) = Returns (Inr task) \<longrightarrow>
              gob_Encode rt \<lparr>Key = key (heap s ! p), Args = map normalize args\<rparr> = Inr (Payload task)
              \<and> fst (Task rt (heap s ! p) args) = map normalize args
              \<and> (\<forall>i<length args. \<forall>t. args ! i = Iface t None
                     \<and> Kind t \<in> {Chan, Func_kind, Map_kind, Ptr, Slice}
                   \<longrightarrow> map normalize args ! i = NilInterface)
              \<and> (\<forall>i<length args. map normalize args ! i = NilInterface
                     \<or> map normalize args ! i = args ! i)))
       \<and> (gob_Decode rt (task_Payload tk) = Inr invoc \<and> funcs s (Key invoc) = Some p
          \<and> (\<forall>i<length (Args invoc). Args invoc ! i = NilInterface \<longrightarrow> i + 1 < length ps \<or> v \<noteq> None)
          \<longrightarrow>
           (\<exists>inp. build_in (FuncOf nm ps v rs) (Args invoc) [ValueOf (WithTimeout rt ctx 30)] = Returns inp
              \<and> handleTask rt s ctx tk w =
                  (case Value_Call rt (Value (FuncOf nm ps v rs) c) inp w of
                     (w', Panics m) \<Rightarrow> (w', Panics m)
                   | (w', Returns out) \<Rightarrow> (w', handler_error (FuncOf nm ps v rs) out))
              \<and> length inp = length (Args invoc) + 1
              \<and> inp ! 0 = ValueOf (WithTimeout rt ctx 30)
              \<and> (\<forall>i<length (Args invoc).
                    (Args invoc ! i = NilInterface \<longrightarrow>
                       inp ! (i + 1) = Zero (if i + 1 < length ps then ps ! (i + 1) else the v))
                  \<and> (\<forall>t c. Args invoc ! i = Iface t c \<longrightarrow> inp ! (i + 1) = Value t c))))"
proof (intro conjI impI allI)
  fix task
  assume e: "err (heap s ! p) = None" and r: "snd (Task rt (heap s ! p) args) = Returns (Inr task)"
  from Task_success[OF e assms r]
  show "gob_Encode rt \<lparr>Key = key (heap s ! p), Args = map normalize args\<rparr> = Inr (Payload task)"
    and "fst (Task rt (heap s ! p) args) = map normalize args" by simp_all
next
  fix task i t
  assume "i < length args" "args ! i = Iface t None \<and> Kind t \<in> {Chan, Func_kind, Map_kind, Ptr, Slice}"
  then show "map normalize args ! i = NilInterface" by auto
next
  fix task i
  assume "i < length args"
  then show "map normalize args ! i = NilInterface \<or> map normalize args ! i = args ! i"
    using normalize_cases[of "args ! i"] by simp
next
  assume h: "gob_Decode rt (task_Payload tk) = Inr invoc \<and> funcs s (Key invoc) = Some p
          \<and> (\<forall>i<length (Args invoc). Args invoc ! i = NilInterface \<longrightarrow> i + 1 < length ps \<or> v \<noteq> None)"
  let ?ft = "FuncOf nm ps v rs" and ?c = "ValueOf (WithTimeout rt ctx 30)"
  let ?inp = "[?c] @ delivered ?ft (length [?c]) (Args invoc)"
  have d: "\<forall>k<length (Args invoc). Args invoc ! k = NilInterface \<longrightarrow> declared ?ft (length [?c] + k) \<noteq> None"
    using h by auto
  from build_in_returns[OF d] have b: "build_in ?ft (Args invoc) [?c] = Returns ?inp" .
  from h have dec: "gob_Decode rt (task_Payload tk) = Inr invoc" and fn: "funcs s (Key invoc) = Some p"
    by simp_all
  have nth: "\<forall>i<length (Args invoc).
                    (Args invoc ! i = NilInterface \<longrightarrow>
                       ?inp ! (i + 1) = Zero (if i + 1 < length ps then ps ! (i + 1) else the v))
                  \<and> (\<forall>t c. Args invoc ! i = Iface t c \<longrightarrow> ?inp ! (i + 1) = Value t c)"
  proof (intro allI impI conjI)
    fix i assume i: "i < length (Args invoc)" and n: "Args invoc ! i = NilInterface"
    with h have "i + 1 < length ps \<or> v \<noteq> None" by simp
    then show "?inp ! (i + 1) = Zero (if i + 1 < length ps then ps ! (i + 1) else the v)"
      using i n by (auto simp add: delivered_nth)
  next
    fix i t c assume "i < length (Args invoc)" "Args invoc ! i = Iface t c"
    then show "?inp ! (i + 1) = Value t c" by (simp add: delivered_nth)
  qed
  show "\<exists>inp. build_in ?ft (Args invoc) [?c] = Returns inp
              \<and> handleTask rt s ctx tk w =
                  (case Value_Call rt (Value ?ft c) inp w of
                     (w', Panics m) \<Rightarrow> (w', Panics m)
                   | (w', Returns out) \<Rightarrow> (w', handler_error ?ft out))
              \<and> length inp = length (Args invoc) + 1
              \<and> inp ! 0 = ?c
              \<and> (\<forall>i<length (Args invoc).
                    (Args invoc ! i = NilInterface \<longrightarrow>
                       inp ! (i + 1) = Zero (if i + 1 < length ps then ps ! (i + 1) else the v))
                  \<and> (\<forall>t c. Args invoc ! i = Iface t c \<longrightarrow> inp ! (i + 1) = Value t c))"
    using b handleTask_dispatch[OF dec fn assms b, of w] nth
    by (intro exI[of _ ?inp]) simp
qed

lemma Funcs_reachable_ok:
  "Funcs regs init_state = Returns s \<Longrightarrow> registry_ok s"
  by (rule Funcs_registry_ok[OF registry_ok_init])



lemmas run_defs = Task_def Task_dt_def handleTask_def handleTask_at_def Value_Call_def
  handler_error_def NumIn_def In_def NumOut_def Out_def Zero_def Func_def new_Function_def
  task_goroutine_def listenQueue_def




theorem Task_overwrites_boxed_nil_witness:
  "snd (Task demo_rt variadic_handler [Iface intT (Some 7), Iface ptrT None, Iface stringT (Some 9)])
     = Returns (Inl (NotAssignable 3 stringT ptrT))
   \<and> length (fst (Task demo_rt variadic_handler
                [Iface intT (Some 7), Iface ptrT None, Iface stringT (Some 9)])) = 3
   \<and> fst (Task demo_rt variadic_handler
            [Iface intT (Some 7), Iface ptrT None, Iface stringT (Some 9)]) ! 1 = NilInterface"
proof -
  let ?args = "[Iface intT (Some 7), Iface ptrT None, Iface stringT (Some (9::nat))]"
  have e: "err variadic_handler = None" by (simp add: variadic_handler_def)
  have t: "fv variadic_handler = Value (FuncOf [] [contextType, intT] (Some ptrT) [errorType]) (Some 1)"
    by (simp add: variadic_handler_def variadicT_def)
  have ar: "arity_ok (length [contextType, intT]) (Some ptrT \<noteq> None) (length ?args)"
    by (simp add: arity_ok_def)
  have i: "1 < length ?args" by simp
  have a: "?args ! 1 = Iface ptrT None" by simp
  have k: "may_be_nil (Kind ptrT)" by (simp add: ptrT_def)
  have before: "\<forall>k<1. \<exists>dt. declared (FuncOf [] [contextType, intT] (Some ptrT) [errorType]) (k + 1) = Some dt
                   \<and> accepted demo_rt dt (?args ! k)"
    by (simp add: accepted_def demo_defs)
  have r: "snd (Task demo_rt variadic_handler ?args) = Returns (Inl (NotAssignable 3 stringT ptrT))"
    by (simp add: demo_defs run_defs)
  from Task_overwrites_boxed_nil[OF e t ar i a k before] r show ?thesis by simp
qed

theorem handleTask_handler_result_witness:
  "snd (handleTask demo_rt demo_state (group_ctx demo_rt) (demo_task ''t2'' [5]) world0)
     = Returns (Some (HandlerFailed (Some 2)))
   \<and> snd (handleTask demo_rt demo_state (group_ctx demo_rt) (demo_task ''t1'' [2]) world0)
     = Returns None"
proof -
  let ?inp = "[Value timerCtxT (Some 30), Value intT (Some (5::nat))]"
  have d5: "gob_Decode demo_rt (task_Payload (demo_task ''t2'' [5]))
              = Inr \<lparr>Key = ''main.go:fail'', Args = [Iface intT (Some 5)]\<rparr>"
    and d2: "gob_Decode demo_rt (task_Payload (demo_task ''t1'' [2]))
              = Inr \<lparr>Key = ''main.go:k'', Args = [Iface intT (Some 5)]\<rparr>"
    by (simp_all add: demo_defs)
  have f5: "funcs demo_state (Key \<lparr>Key = ''main.go:fail'', Args = [Iface intT (Some (5::nat))]\<rparr>) = Some 1"
    and f2: "funcs demo_state (Key \<lparr>Key = ''main.go:k'', Args = [Iface intT (Some (5::nat))]\<rparr>) = Some 0"
    by (simp_all add: demo_state_def)
  have v5: "fv (heap demo_state ! 1) = Value (FuncOf [] [contextType, intT] None [errorType]) (Some 2)"
    and v2: "fv (heap demo_state ! 0) = Value (FuncOf [] [contextType, intT] None [errorType]) (Some 1)"
    by (simp_all add: demo_defs)
  have b: "build_in (FuncOf [] [contextType, intT] None [errorType])
             (Args \<lparr>Key = kk, Args = [Iface intT (Some (5::nat))]\<rparr>)
             [ValueOf (WithTimeout demo_rt (group_ctx demo_rt) 30)] = Returns ?inp" for kk
    by (simp add: demo_defs)
  have c5: "Value_Call demo_rt (Value (FuncOf [] [contextType, intT] None [errorType]) (Some 2)) ?inp world0
              = (world0\<lparr>calls := [(Value (FuncOf [] [contextType, intT] None [errorType]) (Some 2), ?inp)]\<rparr>,
                 Returns [Value errorType (Some 2)])"
    and c2: "Value_Call demo_rt (Value (FuncOf [] [contextType, intT] None [errorType]) (Some 1)) ?inp world0
              = (world0\<lparr>calls := [(Value (FuncOf [] [contextType, intT] None [errorType]) (Some 1), ?inp)]\<rparr>,
                 Returns [Value errorType None])"
    by (simp_all add: demo_defs run_defs)
  from handleTask_handler_result[OF d5 f5 v5 b c5]
  have r5: "snd (handleTask demo_rt demo_state (group_ctx demo_rt) (demo_task ''t2'' [5]) world0)
     = Returns (Some (HandlerFailed (Some 2)))" by simp
  from handleTask_handler_result[OF d2 f2 v2 b c2]
  have r2: "snd (handleTask demo_rt demo_state (group_ctx demo_rt) (demo_task ''t1'' [2]) world0)
     = Returns None" by simp
  from r5 r2 show ?thesis by simp
qed

theorem typed_nil_round_trip_witness:
  "fst (Task demo_rt variadic_handler [Iface intT (Some 7), Iface ptrT None, Iface ptrT (Some 3)])
     = [Iface intT (Some 7), NilInterface, Iface ptrT (Some 3)]
   \<and> gob_Encode demo_rt \<lparr>Key = ''main.go:v'', Args = [Iface intT (Some 7), NilInterface, Iface ptrT (Some 3)]\<rparr>
     = Inr [4]
   \<and> build_in variadicT [Iface intT (Some 7), NilInterface, Iface ptrT (Some 3)]
        [Value timerCtxT (Some (30::nat))]
     = Returns [Value timerCtxT (Some 30), Value intT (Some 7), Zero ptrT, Value ptrT (Some 3)]
   \<and> build_in handlerT [NilInterface] [Value timerCtxT (Some (30::nat))]
     = Returns [Value timerCtxT (Some 30), Zero intT]"
proof -
  let ?args = "[Iface intT (Some 7), Iface ptrT None, Iface ptrT (Some (3::nat))]"
  let ?iv = "\<lparr>Key = ''main.go:v'', Args = [Iface intT (Some 7), NilInterface, Iface ptrT (Some (3::nat))]\<rparr>"
  let ?ik = "\<lparr>Key = ''main.go:k'', Args = [NilInterface :: nat any]\<rparr>"
  have v: "fv (heap demo_state ! 2) = Value (FuncOf [] [contextType, intT] (Some ptrT) [errorType]) (Some 1)"
    and k: "fv (heap demo_state ! 0) = Value (FuncOf [] [contextType, intT] None [errorType]) (Some 1)"
    by (simp_all add: demo_defs)
  have h: "heap demo_state ! 2 = variadic_handler" by (simp add: demo_state_def)
  have e: "err (heap demo_state ! 2) = None" by (simp add: demo_defs)
  have task: "snd (Task demo_rt (heap demo_state ! 2) ?args) = Returns (Inr \<lparr>Payload = [4], MinEta = None\<rparr>)"
    by (simp add: demo_defs run_defs)
  have dv: "gob_Decode demo_rt (task_Payload (demo_task ''t1'' [4])) = Inr ?iv"
    and dk: "gob_Decode demo_rt (task_Payload (demo_task ''t3'' [6])) = Inr ?ik"
    by (simp_all add: demo_defs)
  have fv: "funcs demo_state (Key ?iv) = Some 2" and fk: "funcs demo_state (Key ?ik) = Some 0"
    by (simp_all add: demo_state_def)
  have c: "ValueOf (WithTimeout demo_rt (group_ctx demo_rt) 30) = Value timerCtxT (Some 30)"
    by (simp add: demo_rt_def book_runtime_def)
  have n: "map normalize ?args = [Iface intT (Some 7), NilInterface, Iface ptrT (Some 3)]"
    by (simp add: intT_def ptrT_def)
  from typed_nil_round_trip[OF v, where rt = demo_rt and args = ?args, THEN conjunct1, rule_format, OF e task]
  have 1: "fst (Task demo_rt variadic_handler ?args) = [Iface intT (Some 7), NilInterface, Iface ptrT (Some 3)]"
    and 2: "gob_Encode demo_rt ?iv = Inr [4]"
    by (simp_all add: h variadic_handler_def ptrT_def intT_def)
  have pos: "\<forall>i<length (Args ?iv). Args ?iv ! i = NilInterface \<longrightarrow>
                 i + 1 < length [contextType, intT] \<or> Some ptrT \<noteq> None" by simp
  from typed_nil_round_trip[OF v, where rt = demo_rt and tk = "demo_task ''t1'' [4]" and invoc = ?iv
      and ctx = "group_ctx demo_rt" and w = world0 and args = ?args, THEN conjunct2, rule_format,
      OF conjI[OF dv conjI[OF fv pos]]]
  obtain inp where b: "build_in (FuncOf [] [contextType, intT] (Some ptrT) [errorType]) (Args ?iv)
         [ValueOf (WithTimeout demo_rt (group_ctx demo_rt) 30)] = Returns inp"
    and len: "length inp = length (Args ?iv) + 1"
    and i0: "inp ! 0 = ValueOf (WithTimeout demo_rt (group_ctx demo_rt) 30)"
    and vals: "\<forall>i<length (Args ?iv).
                    (Args ?iv ! i = NilInterface \<longrightarrow>
                       inp ! (i + 1) = Zero (if i + 1 < length [contextType, intT]
                                             then [contextType, intT] ! (i + 1) else the (Some ptrT)))
                  \<and> (\<forall>t c. Args ?iv ! i = Iface t c \<longrightarrow> inp ! (i + 1) = Value t c)"
    by auto
  from len have l4: "length inp = 4" by simp
  from vals[rule_format, of 0] have i1: "inp ! 1 = Value intT (Some 7)" by simp
  from vals[rule_format, of 1] have i2: "inp ! 2 = Zero ptrT" by (simp add: numeral_2_eq_2)
  from vals[rule_format, of 2] have i3: "inp ! 3 = Value ptrT (Some 3)" by (simp add: numeral_3_eq_3)
  have "inp = [inp ! 0, inp ! 1, inp ! 2, inp ! 3]"
    using l4 by (intro nth_equalityI) (auto simp add: nth_Cons' eval_nat_numeral less_Suc_eq)
  with i0 c i1 i2 i3 have inp: "inp = [Value timerCtxT (Some 30), Value intT (Some 7), Zero ptrT, Value ptrT (Some 3)]"
    by simp
  from b inp c have 3: "build_in variadicT [Iface intT (Some 7), NilInterface, Iface ptrT (Some 3)]
        [Value timerCtxT (Some (30::nat))]
     = Returns [Value timerCtxT (Some 30), Value intT (Some 7), Zero ptrT, Value ptrT (Some 3)]"
    by (simp add: variadicT_def)
  have 4: "build_in handlerT [NilInterface] [Value timerCtxT (Some (30::nat))]
     = Returns [Value timerCtxT (Some 30), Zero intT]"
    by (simp add: demo_defs run_defs)
  from 1 2 3 4 show ?thesis by simp
qed

section \<open>Registrations over time\<close>

lemma Func_cases:
  assumes "Func fl k i s = Returns (q, s')"
  obtains (bad) t c e where "i = Iface t c" "\<not> shape_ok (Value t c)" "q = length (heap s)"
      "s' = s\<lparr>heap := heap s @ [\<lparr>fv = Value t c, key = fl @ '':'' @ k, err = Some e\<rparr>]\<rparr>"
  | (good) t c where "i = Iface t c" "shape_ok (Value t c)" "q = length (heap s)"
      "s' = \<lparr>heap = marked_heap s (fl @ '':'' @ k) (MultipleFunctions k fl)
                     @ [\<lparr>fv = Value t c, key = fl @ '':'' @ k, err = None\<rparr>],
             funcs = (funcs s)(fl @ '':'' @ k \<mapsto> length (heap s)),
             gob_types = register_params (params t) (gob_types s)\<rparr>"
proof (cases i)
  case NilInterface
  with assms show ?thesis by (simp add: Func_nil)
next
  case (Iface t c)
  show ?thesis
  proof (cases "shape_ok (Value t c)")
    case False
    from Func_bad_shape[OF False, of fl k s] assms Iface obtain e where
      "q = length (heap s)"
      "s' = s\<lparr>heap := heap s @ [\<lparr>fv = Value t c, key = fl @ '':'' @ k, err = Some e\<rparr>]\<rparr>"
      by auto
    with Iface False show ?thesis by (rule bad)
  next
    case True
    from Func_good_shape'[OF True, of fl k s] assms Iface
    have "q = length (heap s)"
      "s' = \<lparr>heap = marked_heap s (fl @ '':'' @ k) (MultipleFunctions k fl)
                     @ [\<lparr>fv = Value t c, key = fl @ '':'' @ k, err = None\<rparr>],
             funcs = (funcs s)(fl @ '':'' @ k \<mapsto> length (heap s)),
             gob_types = register_params (params t) (gob_types s)\<rparr>"
      by auto
    with Iface True show ?thesis by (rule good)
  qed
qed

lemma Func_preserves:
  assumes ok: "registry_ok s" and f: "Func fl k i s = Returns (q, s')" and p: "p < length (heap s)"
  shows "p < length (heap s') \<and> key (heap s' ! p) = key (heap s ! p)
       \<and> fv (heap s' ! p) = fv (heap s ! p)
       \<and> (\<forall>e. err (heap s ! p) = Some e \<longrightarrow> err (heap s' ! p) = Some e)"
  using f
proof (cases rule: Func_cases)
  case (bad t c e)
  with p show ?thesis by (simp add: nth_append)
next
  case (good t c)
  have "err (heap s ! p) = None" if "funcs s (fl @ '':'' @ k) = Some p"
    using registry_ok_funcs[OF ok that] by simp
  with p good show ?thesis by (auto simp add: nth_append marked_heap_nth)
qed

lemma Funcs_preserves:
  "registry_ok s \<Longrightarrow> Funcs regs s = Returns s' \<Longrightarrow> p < length (heap s) \<Longrightarrow>
   p < length (heap s') \<and> key (heap s' ! p) = key (heap s ! p)
   \<and> fv (heap s' ! p) = fv (heap s ! p)
   \<and> (\<forall>e. err (heap s ! p) = Some e \<longrightarrow> err (heap s' ! p) = Some e)"
proof (induction regs arbitrary: s)
  case Nil
  then show ?case by simp
next
  case (Cons r regs)
  obtain fl k i where r: "r = (fl, k, i)" by (cases r) auto
  from Cons.prems(2) r obtain q s1 where 1: "Func fl k i s = Returns (q, s1)"
    and 2: "Funcs regs s1 = Returns s'"
    by (auto split: exec.splits)
  note a = Func_preserves[OF Cons.prems(1) 1 Cons.prems(3)]
  from a have p1: "p < length (heap s1)" by simp
  from Cons.IH[OF Func_registry_ok[OF Cons.prems(1) 1] 2 p1] a show ?case by auto
qed

lemma Func_registers:
  assumes "Func fl k (Iface t c) s = Returns (q, s')" and "shape_ok (Value t c)"
  shows "q = length (heap s) \<and> q < length (heap s') \<and> funcs s' (fl @ '':'' @ k) = Some q
       \<and> heap s' ! q = \<lparr>fv = Value t c, key = fl @ '':'' @ k, err = None\<rparr>"
  using assms(1)
proof (cases rule: Func_cases)
  case (bad t' c' e)
  with assms(2) show ?thesis by simp
next
  case (good t' c')
  then show ?thesis by (simp add: nth_append)
qed

lemma Func_marks:
  assumes "Func fl k (Iface t c) s = Returns (q, s')" and "shape_ok (Value t c)"
    and "funcs s (fl @ '':'' @ k) = Some p" and "p < length (heap s)"
  shows "err (heap s' ! p) = Some (MultipleFunctions k fl)"
  using assms(1)
proof (cases rule: Func_cases)
  case (bad t' c' e)
  with assms(2) show ?thesis by simp
next
  case (good t' c')
  with assms(3,4) show ?thesis by (simp add: nth_append marked_heap_nth)
qed

lemma shape_ok_not_nil: "shape_ok (ValueOf i) \<Longrightarrow> \<exists>t c. i = Iface t c"
  by (cases i) (auto simp add: shape_ok_def)

lemma Func_allocates:
  assumes "Func fl k i s = Returns (q, s')"
  shows "q = length (heap s) \<and> q < length (heap s')
       \<and> key (heap s' ! q) = fl @ '':'' @ k \<and> fv (heap s' ! q) = ValueOf i
       \<and> (shape_ok (ValueOf i) \<longrightarrow> err (heap s' ! q) = None \<and> funcs s' (fl @ '':'' @ k) = Some q)
       \<and> (\<not> shape_ok (ValueOf i) \<longrightarrow>
            (err (heap s' ! q) = Some NotAFunction \<or> err (heap s' ! q) = Some FirstArgumentNotContext)
            \<and> funcs s' = funcs s)"
proof (cases i)
  case NilInterface
  with assms show ?thesis by (simp add: Func_nil)
next
  case (Iface t c)
  with assms show ?thesis
    by (auto simp add: Func_def shape_ok_def new_Function_def Let_def NumIn_def In_def nth_append
        split: if_splits option.splits)
qed

text \<open>
  C6. The derived key is the file of the call site, a colon and the short name. Let two
  calls of \<^verbatim>\<open>Func\<close> produce the same derived key, with any registrations before, between
  and after them, and let the later call pass the checks of \<^verbatim>\<open>Func\<close>. If the earlier
  call passed them too, it registered its object. After the later call the registry
  entry of the key is the later object, which carries no error; the earlier object
  carries an error, the "multiple functions" error of the later call when it still was
  the entry; and in every later state the earlier object still carries that error, so
  that Task on it returns the error and no payload. Equal short names produce equal
  derived keys only from the same file.
\<close>

theorem duplicate_registration:
  assumes "Funcs regs0 init_state = Returns s0"
    and "Func file1 k1 i1 s0 = Returns (p1, s1)"
    and "Funcs regs1 s1 = Returns s2"
    and "Func file2 k2 i2 s2 = Returns (p2, s3)"
    and "Funcs regs2 s3 = Returns s4"
    and "shape_ok (ValueOf i2)"
    and "file1 @ '':'' @ k1 = file2 @ '':'' @ k2"
  shows "key (heap s1 ! p1) = file1 @ '':'' @ k1 \<and> key (heap s3 ! p2) = file2 @ '':'' @ k2
       \<and> (shape_ok (ValueOf i1) \<longrightarrow>
            funcs s1 (file1 @ '':'' @ k1) = Some p1 \<and> err (heap s1 ! p1) = None)
       \<and> p1 \<noteq> p2
       \<and> funcs s3 (file2 @ '':'' @ k2) = Some p2
       \<and> err (heap s3 ! p2) = None \<and> fv (heap s3 ! p2) = ValueOf i2
       \<and> (funcs s2 (file2 @ '':'' @ k2) = Some p1 \<longrightarrow>
            err (heap s3 ! p1) = Some (MultipleFunctions k2 file2))
       \<and> (\<exists>e. err (heap s3 ! p1) = Some e \<and> err (heap s4 ! p1) = Some e
              \<and> (\<forall>rt args. Task rt (heap s4 ! p1) args = (args, Returns (Inl e))))
       \<and> (k1 = k2 \<longrightarrow> file1 = file2)"
proof -
  from shape_ok_not_nil[OF assms(6)] obtain t2 c2 where i2: "i2 = Iface t2 c2" by blast
  let ?k = "file2 @ '':'' @ k2"
  have ok0: "registry_ok s0" by (rule Funcs_reachable_ok[OF assms(1)])
  have ok1: "registry_ok s1" by (rule Func_registry_ok[OF ok0 assms(2)])
  have ok2: "registry_ok s2" by (rule Funcs_registry_ok[OF ok1 assms(3)])
  have ok3: "registry_ok s3" by (rule Func_registry_ok[OF ok2 assms(4)])
  have sh2: "shape_ok (Value t2 c2)" using assms(6) i2 by simp
  note r1 = Func_allocates[OF assms(2)]
  note r2 = Func_allocates[OF assms(4)]
  from r1 have p1s1: "p1 < length (heap s1)" and k1: "key (heap s1 ! p1) = file1 @ '':'' @ k1"
    by blast+
  note a12 = Funcs_preserves[OF ok1 assms(3) p1s1]
  from a12 have p1s2: "p1 < length (heap s2)" and k2: "key (heap s2 ! p1) = ?k"
    using k1 assms(7) by simp_all
  from r2 have "p2 = length (heap s2)" by blast
  with p1s2 have ne: "p1 \<noteq> p2" by simp
  note a23 = Func_preserves[OF ok2 assms(4) p1s2]
  have marked: "err (heap s3 ! p1) = Some (MultipleFunctions k2 file2)"
    if "funcs s2 ?k = Some p1"
    by (rule Func_marks[OF assms(4)[unfolded i2] sh2 that p1s2])
  have "\<exists>e. err (heap s3 ! p1) = Some e"
  proof (cases "err (heap s2 ! p1)")
    case None
    from registry_ok_live[OF ok2 p1s2 None] k2 have "funcs s2 ?k = Some p1" by simp
    from marked[OF this] show ?thesis by blast
  next
    case (Some e)
    with a23 show ?thesis by blast
  qed
  then obtain e where e3: "err (heap s3 ! p1) = Some e" ..
  from a23 have p1s3: "p1 < length (heap s3)" by simp
  from Funcs_preserves[OF ok3 assms(5) p1s3] e3 have e4: "err (heap s4 ! p1) = Some e" by simp
  have same_file: "k1 = k2 \<longrightarrow> file1 = file2" using assms(7) by auto
  from e3 e4 Task_stored_error[OF e4]
  have errs: "\<exists>e. err (heap s3 ! p1) = Some e \<and> err (heap s4 ! p1) = Some e
              \<and> (\<forall>rt args. Task rt (heap s4 ! p1) args = (args, Returns (Inl e)))"
    by blast
  from r1 r2 assms(6) have parts:
    "key (heap s1 ! p1) = file1 @ '':'' @ k1" "key (heap s3 ! p2) = ?k"
    "shape_ok (ValueOf i1) \<longrightarrow> funcs s1 (file1 @ '':'' @ k1) = Some p1 \<and> err (heap s1 ! p1) = None"
    "funcs s3 ?k = Some p2" "err (heap s3 ! p2) = None" "fv (heap s3 ! p2) = ValueOf i2"
    by blast+
  from parts ne marked errs same_file show ?thesis by (intro conjI impI) simp_all
qed

theorem duplicate_registration_witness:
  "Func ''main.go'' ''k'' (Iface handlerT (Some 1)) init_state = Returns (0, once_state)
   \<and> Func ''main.go'' ''k'' (Iface handlerT (Some 2)) once_state = Returns (1, twice_state)
   \<and> funcs twice_state ''main.go:k'' = Some 1
   \<and> err (heap twice_state ! 1) = None
   \<and> err (heap twice_state ! 0) = Some (MultipleFunctions ''k'' ''main.go'')
   \<and> Task demo_rt (heap twice_state ! 0) [Iface intT (Some 5)]
       = ([Iface intT (Some 5)], Returns (Inl (MultipleFunctions ''k'' ''main.go'')))"
proof -
  have r0: "Funcs [] init_state = Returns (init_state :: nat state)" by simp
  have f1: "Func ''main.go'' ''k'' (Iface handlerT (Some 1)) init_state = Returns (0, once_state)"
    by (simp add: demo_defs run_defs init_state_def fun_eq_iff)
  have r1: "Funcs [] once_state = Returns once_state" by simp
  have f2: "Func ''main.go'' ''k'' (Iface handlerT (Some 2)) once_state = Returns (1, twice_state)"
    by (simp add: demo_defs run_defs fun_eq_iff)
  have r2: "Funcs [] twice_state = Returns twice_state" by simp
  have sh: "shape_ok (ValueOf (Iface handlerT (Some (2::nat))))"
    by (simp add: shape_ok_def handlerT_def)
  have k: "''main.go'' @ '':'' @ ''k'' = ''main.go'' @ '':'' @ ''k''" by simp
  have was: "funcs once_state (''main.go'' @ '':'' @ ''k'') = Some 0" by (simp add: once_state_def)
  from duplicate_registration[OF r0 f1 r1 f2 r2 sh k] was
  have "funcs twice_state ''main.go:k'' = Some 1"
    and "err (heap twice_state ! 1) = None"
    and "err (heap twice_state ! 0) = Some (MultipleFunctions ''k'' ''main.go'')"
    and "Task demo_rt (heap twice_state ! 0) [Iface intT (Some 5)]
       = ([Iface intT (Some 5)], Returns (Inl (MultipleFunctions ''k'' ''main.go'')))"
    by auto
  with f1 f2 show ?thesis by blast
qed








section \<open>Acknowledgments on the stream\<close>







text \<open>
  The part of C8 that the code keeps: given any value other than the nil interface that
  fails a check, \<^verbatim>\<open>Func\<close> returns an object with the stored error "not a function" or
  "first argument must be context.Context" and leaves the registry as it was; after any
  further registrations the object still carries that error, and \<^verbatim>\<open>Task\<close> and
  \<^verbatim>\<open>Call\<close> on it return the error, with no payload and nothing sent.
\<close>

theorem Func_defers_errors:
  assumes "Funcs regs0 init_state = Returns s" and "\<not> shape_ok (Value t c)"
  shows "\<exists>p s' e. Func fl k (Iface t c) s = Returns (p, s')
           \<and> err (heap s' ! p) = Some e
           \<and> e = (if Kind t \<noteq> Func_kind then NotAFunction else FirstArgumentNotContext)
           \<and> funcs s' = funcs s
           \<and> (\<forall>regs s''. Funcs regs s' = Returns s'' \<longrightarrow>
                 err (heap s'' ! p) = Some e
                 \<and> (\<forall>rt args queue.
                       Task rt (heap s'' ! p) args = (args, Returns (Inl e))
                       \<and> Function_Call rt (heap s'' ! p) queue args = (args, Returns (Some e))))"
proof -
  let ?e = "if Kind t \<noteq> Func_kind then NotAFunction else FirstArgumentNotContext :: 'a error"
  let ?s' = "s\<lparr>heap := heap s @ [\<lparr>fv = Value t c, key = fl @ '':'' @ k, err = Some ?e\<rparr>]\<rparr>"
  have f: "Func fl k (Iface t c) s = Returns (length (heap s), ?s')"
    using assms(2) by (auto simp add: Func_def shape_ok_def new_Function_def Let_def NumIn_def In_def)
  have ok: "registry_ok s" by (rule Funcs_reachable_ok[OF assms(1)])
  have ok': "registry_ok ?s'" by (rule Func_registry_ok[OF ok f])
  have e': "err (heap ?s' ! length (heap s)) = Some ?e" by simp
  have later: "\<forall>regs s''. Funcs regs ?s' = Returns s'' \<longrightarrow>
                 err (heap s'' ! length (heap s)) = Some ?e
                 \<and> (\<forall>rt args queue.
                       Task rt (heap s'' ! length (heap s)) args = (args, Returns (Inl ?e))
                       \<and> Function_Call rt (heap s'' ! length (heap s)) queue args
                           = (args, Returns (Some ?e)))"
  proof (intro allI impI)
    fix regs s'' assume r: "Funcs regs ?s' = Returns s''"
    have "length (heap s) < length (heap ?s')" by simp
    from Funcs_preserves[OF ok' r this] e'
    have e'': "err (heap s'' ! length (heap s)) = Some ?e" by blast
    then show "err (heap s'' ! length (heap s)) = Some ?e
                 \<and> (\<forall>rt args queue.
                       Task rt (heap s'' ! length (heap s)) args = (args, Returns (Inl ?e))
                       \<and> Function_Call rt (heap s'' ! length (heap s)) queue args
                           = (args, Returns (Some ?e)))"
      by (simp add: Function_Call_def Task_stored_error[OF e''])
  qed
  show ?thesis
    by (rule exI[of _ "length (heap s)"], rule exI[of _ ?s'], rule exI[of _ ?e])
       (use f e' later in simp)
qed

theorem Func_defers_errors_witness:
  "Func ''main.go'' ''bad'' (Iface intT (Some 5)) (init_state :: nat state)
     = Returns (0, \<lparr>heap = [\<lparr>fv = Value intT (Some 5), key = ''main.go:bad'', err = Some NotAFunction\<rparr>],
                    funcs = Map.empty, gob_types = []\<rparr>)
   \<and> Funcs mixed_regs init_state = Returns mixed_state
   \<and> Task demo_rt (heap mixed_state ! 0) [] = ([], Returns (Inl NotAFunction))"
proof -
  have r: "Funcs [] init_state = Returns (init_state :: nat state)" by simp
  have b: "\<not> shape_ok (Value intT (Some (5::nat)))" by (simp add: shape_ok_def intT_def)
  have f: "Func ''main.go'' ''bad'' (Iface intT (Some 5)) (init_state :: nat state)
     = Returns (0, \<lparr>heap = [\<lparr>fv = Value intT (Some 5), key = ''main.go:bad'', err = Some NotAFunction\<rparr>],
                    funcs = Map.empty, gob_types = []\<rparr>)"
    by (simp add: demo_defs run_defs init_state_def)
  have m: "Funcs [(''main.go'', ''k'', Iface handlerT (Some 1))]
             \<lparr>heap = [\<lparr>fv = Value intT (Some 5), key = ''main.go:bad'', err = Some NotAFunction\<rparr>],
                    funcs = Map.empty, gob_types = []\<rparr> = Returns mixed_state"
    by (simp add: demo_defs run_defs fun_eq_iff)
  have mm: "Funcs mixed_regs init_state = Returns mixed_state"
    by (simp add: demo_defs run_defs init_state_def fun_eq_iff)
  from Func_defers_errors[OF r b, of "''main.go''" "''bad''"] obtain p s' e where
    1: "Func ''main.go'' ''bad'' (Iface intT (Some 5)) (init_state :: nat state) = Returns (p, s')"
    and 3: "e = (if Kind intT \<noteq> Func_kind then NotAFunction else FirstArgumentNotContext)"
    and 4: "\<forall>regs s''. Funcs regs s' = Returns s'' \<longrightarrow>
                 err (heap s'' ! p) = Some e
                 \<and> (\<forall>rt args queue.
                       Task rt (heap s'' ! p) args = (args, Returns (Inl e))
                       \<and> Function_Call rt (heap s'' ! p) queue args = (args, Returns (Some e)))"
    by blast
  from 1 f have p: "p = 0"
    and s': "s' = \<lparr>heap = [\<lparr>fv = Value intT (Some 5), key = ''main.go:bad'', err = Some NotAFunction\<rparr>],
                    funcs = Map.empty, gob_types = []\<rparr>" by simp_all
  from 3 have e: "e = NotAFunction" by (simp add: intT_def)
  from 4[rule_format, of "[(''main.go'', ''k'', Iface handlerT (Some 1))]" mixed_state] m
  have "Task demo_rt (heap mixed_state ! 0) [] = ([], Returns (Inl NotAFunction))"
    unfolding p s' e by blast
  with f mm show ?thesis by simp
qed

end
